theory Spec2Isabelle
  imports Main
begin

section \<open>The filename matcher of \<open>src/components/BatchJob.tsx\<close>\<close>

text \<open>
  The component matches the video files of a reference folder with those of a foreign
  folder. Each filename is reduced to a match key (\<open>buildMatchKey\<close>), the foreign files
  are stored in a \<open>Map\<close> under their keys, and every reference file is looked up there
  (\<open>handleLoadJobs\<close>). The matched pairs become batch jobs that \<open>handleAddToQueue\<close> hands
  to the caller.

  JavaScript strings are modelled as \<open>string\<close>. What the code takes from its platform
  (the regular expressions, \<open>toLowerCase\<close>, \<open>trim\<close>, the directory listing of the Electron
  bridge) is a parameter of the model, the record \<open>platform\<close>; the general theorems hold
  for every platform. A concrete platform (\<open>js_platform\<close>, further down) implements a fragment of
  ECMAScript regular expressions and the string functions on the code units below 256,
  so that the model runs on concrete filenames.
\<close>

subsection \<open>Data\<close>

datatype js_error =
    SyntaxError string     \<comment> \<open>thrown by \<open>new RegExp\<close>\<close>
  | IOError string         \<comment> \<open>a rejected \<open>listDirectory\<close> promise\<close>
  | OutsideFragment string \<comment> \<open>only of the concrete platform: syntax it does not model\<close>

datatype job_status = pending | processing | completed | failed

text \<open>\<open>interface BatchJobItem\<close>; the field \<open>id\<close> is \<open>jobId\<close> here.\<close>

record BatchJobItem =
  jobId :: string
  refVideo :: string
  foreignVideo :: string
  outputVideo :: string
  firstSegmentAdjust :: int
  lastSegmentAdjust :: int
  skipSubtitles :: bool
  status :: job_status

text \<open>The objects pushed to \<open>previewRows\<close>: \<open>{ ref, foreign: match || null, key }\<close>.\<close>

record PreviewRow =
  ref :: string
  foreign :: "string option"
  key :: string

text \<open>
  The prop \<open>parameters: any\<close>: the three fields the component reads, each possibly
  \<open>undefined\<close>. The two numbers are taken as integers.
\<close>

record parameters =
  p_firstSegmentAdjust :: "int option"
  p_lastSegmentAdjust :: "int option"
  p_noSubtitles :: "bool option"

text \<open>
  The props. The callbacks are the caller's: the model records their calls as events;
  \<open>onJobsChange\<close> is optional, \<open>has_onJobsChange\<close> says whether it was passed.
\<close>

record props =
  params :: parameters
  has_onJobsChange :: bool

text \<open>The \<open>useState\<close> cells of the component.\<close>

record component =
  refFolder :: string
  foreignFolder :: string
  outputFolder :: string
  jobs :: "BatchJobItem list"
  patterns :: "string list"
  preview :: "PreviewRow list"

text \<open>What a handler does to the outside, in order.\<close>

datatype event =
    Alert string
  | ConsoleError js_error
  | JobsChange "BatchJobItem list"
  | AddToQueue "BatchJobItem list"

text \<open>
  The platform. \<open>RegExp_gi p\<close> is \<open>new RegExp(p, 'gi')\<close>, which throws on invalid syntax;
  \<open>replace_empty rx s\<close> is \<open>s.replace(rx, '')\<close>; \<open>listDirectory\<close> is
  \<open>window.electronAPI.listDirectory\<close>, whose promise may reject.
\<close>

record 'rx platform =
  RegExp_gi :: "string \<Rightarrow> js_error + 'rx"
  replace_empty :: "'rx \<Rightarrow> string \<Rightarrow> string"
  toLowerCase :: "string \<Rightarrow> string"
  trim :: "string \<Rightarrow> string"
  listDirectory :: "string \<Rightarrow> js_error + string list"

text \<open>
  \<open>Date.now()\<close> and \<open>Math.random()\<close> are read once for every job created. A clock gives,
  for the \<open>k\<close>-th job of a pass, the time in milliseconds and the text that the template
  literal makes of the random number.
\<close>

type_synonym clock = "nat \<Rightarrow> nat \<times> string"

subsection \<open>\<open>DEFAULT_PATTERNS\<close> and \<open>buildMatchKey\<close>\<close>

definition DEFAULT_PATTERNS :: "string list" where
  "DEFAULT_PATTERNS =
     [[CHR 0x5C, CHR ''.'', CHR ''['', CHR ''^'', CHR ''.'', CHR '']'', CHR ''+'', CHR ''$''],
      [CHR 0x5C, CHR ''['', CHR ''.'', CHR ''*'', CHR ''?'', CHR 0x5C, CHR '']''],
      ''(1080p|720p|4k)'',
      ''(ptbr|eng|jap|jp)'',
      [CHR ''['', CHR ''-'', CHR ''_'', CHR ''.'', CHR 0x5C, CHR ''s'', CHR '']'']]"

text \<open>The loop \<open>for (const p of patterns) key = key.replace(p, '')\<close>.\<close>

fun buildMatchKey_loop :: "'rx platform \<Rightarrow> string \<Rightarrow> 'rx list \<Rightarrow> string" where
  "buildMatchKey_loop P k [] = k"
| "buildMatchKey_loop P k (p # ps) = buildMatchKey_loop P (replace_empty P p k) ps"

definition buildMatchKey :: "'rx platform \<Rightarrow> string \<Rightarrow> 'rx list \<Rightarrow> string" where
  "buildMatchKey P filename pats = trim P (buildMatchKey_loop P (toLowerCase P filename) pats)"

subsection \<open>\<open>handleLoadJobs\<close>\<close>

definition videoExtensions :: "string list" where
  "videoExtensions = [''.mkv'', ''.mp4'', ''.avi'', ''.mov'', ''.m4v'']"

text \<open>\<open>String.prototype.endsWith\<close>: a comparison of code units.\<close>

definition endsWith :: "string \<Rightarrow> string \<Rightarrow> bool" where
  "endsWith s ext = (length ext \<le> length s \<and> drop (length s - length ext) s = ext)"

text \<open>\<open>videoExtensions.some(ext => f.toLowerCase().endsWith(ext))\<close>\<close>

definition isVideo :: "'rx platform \<Rightarrow> string \<Rightarrow> bool" where
  "isVideo P f = list_ex (\<lambda>ext. endsWith (toLowerCase P f) ext) videoExtensions"

text \<open>
  \<open>.map(p => new RegExp(p, 'gi'))\<close>: the patterns are compiled from left to right and the
  first exception ends the map.
\<close>

fun compile_all :: "'rx platform \<Rightarrow> string list \<Rightarrow> js_error + 'rx list" where
  "compile_all P [] = Inr []"
| "compile_all P (p # ps) =
     (case RegExp_gi P p of
        Inl e \<Rightarrow> Inl e
      | Inr r \<Rightarrow> (case compile_all P ps of Inl e \<Rightarrow> Inl e | Inr rs \<Rightarrow> Inr (r # rs)))"

text \<open>
  \<open>const regexes = patterns.filter(Boolean).map(...)\<close>. \<open>Boolean\<close> of a string is false for
  the empty string only.
\<close>

definition regexes :: "'rx platform \<Rightarrow> string list \<Rightarrow> js_error + 'rx list" where
  "regexes P pats = compile_all P (filter (\<lambda>p. p \<noteq> []) pats)"

text \<open>The first loop: \<open>foreignMap.set(buildMatchKey(f, regexes), f)\<close> for every foreign video.\<close>

fun foreignMap_loop ::
  "'rx platform \<Rightarrow> 'rx list \<Rightarrow> (string \<rightharpoonup> string) \<Rightarrow> string list \<Rightarrow> (string \<rightharpoonup> string)" where
  "foreignMap_loop P rs m [] = m"
| "foreignMap_loop P rs m (f # fs) = foreignMap_loop P rs (m(buildMatchKey P f rs \<mapsto> f)) fs"

text \<open>
  \<open>match\<close> is the string found by \<open>foreignMap.get(key)\<close>, or \<open>undefined\<close>. Both \<open>match || null\<close>
  and \<open>if (match)\<close> test its truthiness: the empty string counts as absent.
\<close>

definition truthy :: "string option \<Rightarrow> bool" where
  "truthy m = (case m of None \<Rightarrow> False | Some s \<Rightarrow> s \<noteq> [])"

definition or_null :: "string option \<Rightarrow> string option" where
  "or_null m = (if truthy m then m else None)"

text \<open>\<open>x || 0\<close> on a number or \<open>undefined\<close>, \<open>x || false\<close> on a boolean or \<open>undefined\<close>.\<close>

definition or_zero :: "int option \<Rightarrow> int" where
  "or_zero x = (case x of None \<Rightarrow> 0 | Some v \<Rightarrow> v)"

definition or_false :: "bool option \<Rightarrow> bool" where
  "or_false x = (case x of None \<Rightarrow> False | Some b \<Rightarrow> b)"

text \<open>The decimal digits that a template literal writes for a natural number.\<close>

function decimal :: "nat \<Rightarrow> string" where
  "decimal n = (if n < 10 then [char_of (48 + n)] else decimal (n div 10) @ [char_of (48 + n mod 10)])"
  by pat_completeness auto
termination
  by (relation "measure (\<lambda>n. n)") auto

text \<open>\<open>`batch-${Date.now()}-${Math.random()}`\<close>\<close>

definition make_id :: "nat \<times> string \<Rightarrow> string" where
  "make_id t = ''batch-'' @ decimal (fst t) @ ''-'' @ snd t"

text \<open>The object pushed to \<open>matched\<close> for the reference file \<open>r\<close> and its match \<open>f\<close>.\<close>

definition new_job :: "props \<Rightarrow> component \<Rightarrow> nat \<times> string \<Rightarrow> string \<Rightarrow> string \<Rightarrow> BatchJobItem" where
  "new_job pr st t r f =
     \<lparr>jobId = make_id t,
      refVideo = refFolder st @ ''/'' @ r,
      foreignVideo = foreignFolder st @ ''/'' @ f,
      outputVideo = outputFolder st @ ''/'' @ r,
      firstSegmentAdjust = or_zero (p_firstSegmentAdjust (params pr)),
      lastSegmentAdjust = or_zero (p_lastSegmentAdjust (params pr)),
      skipSubtitles = or_false (p_noSubtitles (params pr)),
      status = pending\<rparr>"

text \<open>
  The second loop, over \<open>refVideos\<close>, with the two arrays \<open>matched\<close> and \<open>previewRows\<close> it
  pushes to. The job pushed when \<open>matched\<close> holds \<open>k\<close> jobs reads the clock at \<open>k\<close>.
\<close>

fun match_loop ::
  "'rx platform \<Rightarrow> props \<Rightarrow> component \<Rightarrow> clock \<Rightarrow> 'rx list \<Rightarrow> (string \<rightharpoonup> string) \<Rightarrow>
   BatchJobItem list \<times> PreviewRow list \<Rightarrow> string list \<Rightarrow> BatchJobItem list \<times> PreviewRow list" where
  "match_loop P pr st clk rs m (matched, previewRows) [] = (matched, previewRows)"
| "match_loop P pr st clk rs m (matched, previewRows) (r # rest) =
     (let k = buildMatchKey P r rs;
          match = m k;
          previewRows' = previewRows @ [\<lparr>ref = r, foreign = or_null match, key = k\<rparr>];
          matched' =
            (case match of
               None \<Rightarrow> matched
             | Some f \<Rightarrow>
                 if f \<noteq> [] then matched @ [new_job pr st (clk (length matched)) r f]
                 else matched)
      in match_loop P pr st clk rs m (matched', previewRows') rest)"

text \<open>The body of the \<open>try\<close> block up to the two arrays; \<open>Inl\<close> is a thrown exception.\<close>

definition load_try ::
  "'rx platform \<Rightarrow> props \<Rightarrow> clock \<Rightarrow> component \<Rightarrow> js_error + BatchJobItem list \<times> PreviewRow list" where
  "load_try P pr clk st =
     (case listDirectory P (refFolder st) of
        Inl e \<Rightarrow> Inl e
      | Inr refFiles \<Rightarrow>
          (case listDirectory P (foreignFolder st) of
             Inl e \<Rightarrow> Inl e
           | Inr foreignFiles \<Rightarrow>
               (let refVideos = filter (isVideo P) refFiles;
                    foreignVideos = filter (isVideo P) foreignFiles
                in case regexes P (patterns st) of
                     Inl e \<Rightarrow> Inl e
                   | Inr rs \<Rightarrow>
                       Inr (match_loop P pr st clk rs
                              (foreignMap_loop P rs Map.empty foreignVideos) ([], []) refVideos))))"

text \<open>
  The handler: the guard on the three folders, the \<open>try\<close> block, and the \<open>catch\<close> that
  logs the exception and alerts. It gives the component after the state updates and the
  events in order.
\<close>

definition handleLoadJobs ::
  "'rx platform \<Rightarrow> props \<Rightarrow> clock \<Rightarrow> component \<Rightarrow> component \<times> event list" where
  "handleLoadJobs P pr clk st =
     (if refFolder st = [] \<or> foreignFolder st = [] \<or> outputFolder st = [] then
        (st, [Alert ''Please select all three folders''])
      else
        (case load_try P pr clk st of
           Inl e \<Rightarrow> (st, [ConsoleError e, Alert ''Failed to load directory contents''])
         | Inr (matched, previewRows) \<Rightarrow>
             (st\<lparr>preview := previewRows, jobs := matched\<rparr>,
              if has_onJobsChange pr then [JobsChange matched] else [])))"

subsection \<open>\<open>handleAddToQueue\<close>\<close>

definition handleAddToQueue :: "props \<Rightarrow> component \<Rightarrow> component \<times> event list" where
  "handleAddToQueue pr st =
     (if length (jobs st) = 0 then (st, [])
      else
        (st\<lparr>jobs := [], preview := []\<rparr>,
         AddToQueue (jobs st) # (if has_onJobsChange pr then [JobsChange []] else [])))"

text \<open>
  The handler is a closure of the render that made it: \<open>jobs\<close> is the job list of that
  render. \<open>setJobs\<close> and \<open>setPreview\<close> change the state that the component holds, and the
  handlers see the change only when the component has rendered again. \<open>handleAddToQueue\<close>
  above gives the state of the render with the updates applied; the calls of the setters
  are these.
\<close>

datatype setter = SetJobs "BatchJobItem list" | SetPreview "PreviewRow list"

fun set_state :: "setter \<Rightarrow> component \<Rightarrow> component" where
  "set_state (SetJobs v) st = st\<lparr>jobs := v\<rparr>"
| "set_state (SetPreview v) st = st\<lparr>preview := v\<rparr>"

definition addToQueue_setters :: "component \<Rightarrow> setter list" where
  "addToQueue_setters st = (if length (jobs st) = 0 then [] else [SetJobs [], SetPreview []])"



subsection \<open>A concrete platform\<close>

text \<open>
  A \<open>string\<close> here is a JavaScript string of code units below 256. On these,
  \<open>toLowerCase\<close> maps \<open>A\<close> to \<open>Z\<close> and the upper-case letters of Latin-1 (the code units 192
  to 222 but 215, the multiplication sign) to the lower-case letter 32 further; white
  space, for \<open>trim\<close> and for \<open>\s\<close>, is the code units 9 to 13, the space and the no-break
  space 160.
\<close>

definition lower_char :: "char \<Rightarrow> char" where
  "lower_char c =
     (let n = of_char c :: nat
      in if (65 \<le> n \<and> n \<le> 90) \<or> (192 \<le> n \<and> n \<le> 214) \<or> (216 \<le> n \<and> n \<le> 222)
         then char_of (n + 32) else c)"

definition js_toLowerCase :: "string \<Rightarrow> string" where
  "js_toLowerCase s = map lower_char s"

definition is_space :: "char \<Rightarrow> bool" where
  "is_space c = (let n = of_char c :: nat in (9 \<le> n \<and> n \<le> 13) \<or> n = 32 \<or> n = 160)"

definition js_trim :: "string \<Rightarrow> string" where
  "js_trim s = rev (dropWhile is_space (rev (dropWhile is_space s)))"

text \<open>
  Regular expressions with the flags \<open>gi\<close>: the syntax tree of the fragment. \<open>Cls neg is\<close>
  is a character class, negated when \<open>neg\<close> holds; \<open>Star greedy r\<close> and \<open>Opt greedy r\<close> are
  \<open>r*\<close> and \<open>r?\<close>, or their lazy forms; \<open>NonEmpty r\<close> is a round of a counted repetition, a
  match of \<open>r\<close> that is not the empty string; \<open>Bol\<close> and \<open>Eol\<close> are \<open>^\<close> and \<open>$\<close> without the
  flag \<open>m\<close>.
\<close>

datatype char_set = Space | Digit | Word

datatype class_item = CChar char | CRange char char | CSet bool char_set

datatype regex =
    Eps
  | Chr char
  | Dot
  | Cls bool "class_item list"
  | Bol
  | Eol
  | Cat regex regex
  | Alt regex regex
  | Star bool regex
  | Opt bool regex
  | NonEmpty regex

text \<open>
  With the flag \<open>i\<close> two characters are compared by their upper-case forms. The letters
  \<open>y\<close> with diaeresis (255) and micro (181) have their upper-case forms beyond 255 and
  equal no other code unit below 256.
\<close>

definition upper_char :: "char \<Rightarrow> char" where
  "upper_char c =
     (let n = of_char c :: nat
      in if (97 \<le> n \<and> n \<le> 122) \<or> (224 \<le> n \<and> n \<le> 246) \<or> (248 \<le> n \<and> n \<le> 254)
         then char_of (n - 32) else c)"

definition in_set :: "char_set \<Rightarrow> char \<Rightarrow> bool" where
  "in_set cs c = (let n = of_char c :: nat in
     case cs of
       Space \<Rightarrow> (9 \<le> n \<and> n \<le> 13) \<or> n = 32 \<or> n = 160
     | Digit \<Rightarrow> 48 \<le> n \<and> n \<le> 57
     | Word \<Rightarrow> (48 \<le> n \<and> n \<le> 57) \<or> (65 \<le> n \<and> n \<le> 90) \<or> (97 \<le> n \<and> n \<le> 122) \<or> n = 95)"

fun item_has :: "class_item \<Rightarrow> char \<Rightarrow> bool" where
  "item_has (CChar a) c = (upper_char a = upper_char c)"
| "item_has (CRange a b) c =
     (let lo = of_char a :: nat; hi = of_char b; n = of_char c;
          u = of_char (upper_char c); l = of_char (lower_char c)
      in (lo \<le> n \<and> n \<le> hi) \<or> (lo \<le> u \<and> u \<le> hi) \<or> (lo \<le> l \<and> l \<le> hi))"
| "item_has (CSet pos cs) c = (in_set cs c = pos)"

text \<open>
  The backtracking matcher. \<open>matches r n s\<close> lists what can be left of the rest \<open>s\<close> of an
  input of length \<open>n\<close> after a match of \<open>r\<close> at the start of \<open>s\<close>, in the order in which
  backtracking tries the matches: the head of the list is the match that \<open>exec\<close> finds. A
  round of \<open>*\<close> or \<open>?\<close> that matches the empty string is rejected, as in ECMAScript.
\<close>

fun matches :: "regex \<Rightarrow> nat \<Rightarrow> string \<Rightarrow> string list" where
  "matches Eps n s = [s]"
| "matches (Chr a) n s =
     (case s of [] \<Rightarrow> [] | c # cs \<Rightarrow> if upper_char a = upper_char c then [cs] else [])"
| "matches Dot n s =
     (case s of [] \<Rightarrow> [] | c # cs \<Rightarrow> if c = CHR 0x0A \<or> c = CHR 0x0D then [] else [cs])"
| "matches (Cls neg items) n s =
     (case s of [] \<Rightarrow> [] | c # cs \<Rightarrow> if list_ex (\<lambda>i. item_has i c) items = neg then [] else [cs])"
| "matches Bol n s = (if length s = n then [s] else [])"
| "matches Eol n s = (if s = [] then [s] else [])"
| "matches (Cat r1 r2) n s = concat (map (matches r2 n) (matches r1 n s))"
| "matches (Alt r1 r2) n s = matches r1 n s @ matches r2 n s"
| "matches (Opt greedy r) n s =
     (let once = filter (\<lambda>t. length t < length s) (matches r n s)
      in if greedy then once @ [s] else s # once)"
| "matches (Star greedy r) n s =
     (let more = concat (map (matches (Star greedy r) n)
                          (filter (\<lambda>t. length t < length s) (matches r n s)))
      in if greedy then more @ [s] else s # more)"
| "matches (NonEmpty r) n s = filter (\<lambda>t. length t < length s) (matches r n s)"

text \<open>
  \<open>s.replace(rx, '')\<close> for a global \<open>rx\<close>: from left to right, the first match at the
  current position is removed and the search goes on after it; where nothing matches, or
  only the empty string, the character stays and the search goes on one further.
\<close>

function replace_all :: "regex \<Rightarrow> nat \<Rightarrow> string \<Rightarrow> string" where
  "replace_all r n s =
     (case matches r n s of
        [] \<Rightarrow> (case s of [] \<Rightarrow> [] | c # cs \<Rightarrow> c # replace_all r n cs)
      | t # _ \<Rightarrow>
          if length t < length s then replace_all r n t
          else (case s of [] \<Rightarrow> [] | c # cs \<Rightarrow> c # replace_all r n cs))"
  by pat_completeness auto
termination
  by (relation "measure (\<lambda>(r, n, s). length s)") auto

definition js_replace_empty :: "regex \<Rightarrow> string \<Rightarrow> string" where
  "js_replace_empty r s = replace_all r (length s) s"

text \<open>
  The parser of patterns reads one character at a time. It keeps the enclosing groups on
  a stack, the finished alternatives of the current group, and the terms of the current
  alternative (the latest first), each with what may still follow it: a quantifier after
  a plain atom, the lazy mark \<open>?\<close> after a greedy quantifier, nothing after an assertion.
  It covers: literal characters, \<open>.\<close>, \<open>^\<close>, \<open>$\<close>, \<open>|\<close>, groups \<open>(\<close> and \<open>(?:\<close>, the
  quantifiers \<open>*\<close>, \<open>+\<close>, \<open>?\<close>, the counted repetitions in braces and the lazy forms of
  all, a brace that opens no repetition as a literal, character classes with ranges and
  negation, and the escapes for character sets, control characters and literal
  characters. Every other construct (the other groups that open with \<open>(?\<close>, back
  references, \<open>\b\<close>, \<open>\c\<close>, \<open>\x\<close>, \<open>\u\<close>) is reported as \<open>Unsupported\<close>: of a pattern with such
  a construct the model says nothing.
\<close>

datatype quant = QStar | QPlus | QOpt | QCount nat "nat option"

datatype term_state = Plain | Greedy quant | Lazy quant | Assertion

text \<open>
  Inside a class: the members read so far and what is pending, an atom that may open a
  range or an atom and the dash after it.
\<close>

datatype class_atom = AChar char | ASet bool char_set

datatype pending = PNone | PAtom class_atom | PDash class_atom

datatype mode =
    Normal
  | Escape
  | GroupOpen
  | GroupSpec
  | Brace string
  | ClassStart
  | ClassBody bool "class_item list" pending
  | ClassEscape bool "class_item list" pending

datatype parse_error = Invalid string | Unsupported

record parser =
  stack :: "(regex list \<times> (regex \<times> term_state) list) list"
  alts :: "regex list"
  terms :: "(regex \<times> term_state) list"
  mode :: mode

definition parser_init :: parser where
  "parser_init = \<lparr>stack = [], alts = [], terms = [], mode = Normal\<rparr>"

text \<open>
  \<open>r+\<close> is \<open>r\<close> followed by \<open>r*\<close>: the first round may match the empty string. A counted
  repetition is its least number of rounds, which may match the empty string, followed by
  \<open>r*\<close> or by the further rounds, each optional and not empty.
\<close>

fun rounds :: "nat \<Rightarrow> regex \<Rightarrow> regex \<Rightarrow> regex" where
  "rounds 0 r k = k"
| "rounds (Suc n) r k = Cat r (rounds n r k)"

fun further :: "bool \<Rightarrow> nat \<Rightarrow> regex \<Rightarrow> regex" where
  "further g 0 r = Eps"
| "further g (Suc n) r = Opt g (Cat (NonEmpty r) (further g n r))"

fun repeated :: "bool \<Rightarrow> quant \<Rightarrow> regex \<Rightarrow> regex" where
  "repeated g QStar r = Star g r"
| "repeated g QPlus r = Cat r (Star g r)"
| "repeated g QOpt r = Opt g r"
| "repeated g (QCount lo None) r = rounds lo r (Star g r)"
| "repeated g (QCount lo (Some hi)) r = rounds lo r (further g (hi - lo) r)"

fun build_term :: "regex \<times> term_state \<Rightarrow> regex" where
  "build_term (r, Plain) = r"
| "build_term (r, Assertion) = r"
| "build_term (r, Greedy q) = repeated True q r"
| "build_term (r, Lazy q) = repeated False q r"

definition build_alt :: "(regex \<times> term_state) list \<Rightarrow> regex" where
  "build_alt ts = foldl (\<lambda>acc t. Cat (build_term t) acc) Eps ts"

definition build_group :: "regex list \<Rightarrow> regex \<Rightarrow> regex" where
  "build_group as cur = foldl (\<lambda>acc a. Alt a acc) cur as"

definition add_term :: "parser \<Rightarrow> regex \<Rightarrow> term_state \<Rightarrow> parse_error + parser" where
  "add_term p r st = Inr (p\<lparr>terms := (r, st) # terms p, mode := Normal\<rparr>)"

definition quantify :: "parser \<Rightarrow> quant \<Rightarrow> parse_error + parser" where
  "quantify p q =
     (case terms p of
        (r, Plain) # ts \<Rightarrow> Inr (p\<lparr>terms := (r, Greedy q) # ts, mode := Normal\<rparr>)
      | _ \<Rightarrow> Inl (Invalid ''Nothing to repeat''))"

text \<open>\<open>?\<close> is a quantifier after an atom and the lazy mark after a greedy quantifier.\<close>

definition question :: "parser \<Rightarrow> parse_error + parser" where
  "question p =
     (case terms p of
        (r, Plain) # ts \<Rightarrow> Inr (p\<lparr>terms := (r, Greedy QOpt) # ts\<rparr>)
      | (r, Greedy q) # ts \<Rightarrow> Inr (p\<lparr>terms := (r, Lazy q) # ts\<rparr>)
      | _ \<Rightarrow> Inl (Invalid ''Nothing to repeat''))"

definition set_escape :: "char \<Rightarrow> (bool \<times> char_set) option" where
  "set_escape c =
     (if c = CHR ''s'' then Some (True, Space) else if c = CHR ''S'' then Some (False, Space)
      else if c = CHR ''d'' then Some (True, Digit) else if c = CHR ''D'' then Some (False, Digit)
      else if c = CHR ''w'' then Some (True, Word) else if c = CHR ''W'' then Some (False, Word)
      else None)"

definition control_escape :: "char \<Rightarrow> char option" where
  "control_escape c =
     (if c = CHR ''t'' then Some (CHR 0x09) else if c = CHR ''n'' then Some (CHR 0x0A)
      else if c = CHR ''v'' then Some (CHR 0x0B) else if c = CHR ''f'' then Some (CHR 0x0C)
      else if c = CHR ''r'' then Some (CHR 0x0D) else None)"

text \<open>The character after a backslash, outside a class: any other character stands for itself.\<close>

definition escape_atom :: "parser \<Rightarrow> char \<Rightarrow> parse_error + parser" where
  "escape_atom p c =
     (case set_escape c of
        Some (pos, cs) \<Rightarrow> add_term p (Cls False [CSet pos cs]) Plain
      | None \<Rightarrow>
          (case control_escape c of
             Some k \<Rightarrow> add_term p (Chr k) Plain
           | None \<Rightarrow>
               if c \<in> set ''bBcxuk0123456789'' then Inl Unsupported
               else add_term p (Chr c) Plain))"

text \<open>
  A new atom of a class. After an atom and a dash it closes a range, which must be in
  order; when one end is a character set, the set, the dash and the other end are the
  members.
\<close>

fun atom_item :: "class_atom \<Rightarrow> class_item" where
  "atom_item (AChar c) = CChar c"
| "atom_item (ASet pos cs) = CSet pos cs"

fun push_atom ::
  "class_item list \<Rightarrow> pending \<Rightarrow> class_atom \<Rightarrow> (class_item list \<times> pending) option" where
  "push_atom items PNone x = Some (items, PAtom x)"
| "push_atom items (PAtom a) x = Some (items @ [atom_item a], PAtom x)"
| "push_atom items (PDash (AChar a)) (AChar b) =
     (if (of_char b :: nat) < of_char a then None else Some (items @ [CRange a b], PNone))"
| "push_atom items (PDash a) x =
     Some (items @ [atom_item a, CChar (CHR ''-''), atom_item x], PNone)"

definition class_push ::
  "parser \<Rightarrow> bool \<Rightarrow> class_item list \<Rightarrow> pending \<Rightarrow> class_atom \<Rightarrow> parse_error + parser" where
  "class_push p neg items pend x =
     (case push_atom items pend x of
        None \<Rightarrow> Inl (Invalid ''Range out of order in character class'')
      | Some (items', pend') \<Rightarrow> Inr (p\<lparr>mode := ClassBody neg items' pend'\<rparr>))"

text \<open>The character after a backslash, inside a class, where \<open>\b\<close> is the backspace.\<close>

definition escape_class ::
  "parser \<Rightarrow> bool \<Rightarrow> class_item list \<Rightarrow> pending \<Rightarrow> char \<Rightarrow> parse_error + parser" where
  "escape_class p neg items pend c =
     (case set_escape c of
        Some (pos, cs) \<Rightarrow> class_push p neg items pend (ASet pos cs)
      | None \<Rightarrow>
          (case control_escape c of
             Some k \<Rightarrow> class_push p neg items pend (AChar k)
           | None \<Rightarrow>
               if c = CHR ''b'' then class_push p neg items pend (AChar (CHR 0x08))
               else if c \<in> set ''cxuk0123456789'' then Inl Unsupported
               else class_push p neg items pend (AChar c)))"

fun close_class :: "class_item list \<Rightarrow> pending \<Rightarrow> class_item list" where
  "close_class items PNone = items"
| "close_class items (PAtom a) = items @ [atom_item a]"
| "close_class items (PDash a) = items @ [atom_item a, CChar (CHR ''-'')]"

definition class_char ::
  "parser \<Rightarrow> bool \<Rightarrow> class_item list \<Rightarrow> pending \<Rightarrow> char \<Rightarrow> parse_error + parser" where
  "class_char p neg items pend c =
     (if c = CHR '']'' then add_term p (Cls neg (close_class items pend)) Plain
      else if c = CHR 0x5C then Inr (p\<lparr>mode := ClassEscape neg items pend\<rparr>)
      else if c = CHR ''-'' then
        (case pend of
           PAtom a \<Rightarrow> Inr (p\<lparr>mode := ClassBody neg items (PDash a)\<rparr>)
         | _ \<Rightarrow> class_push p neg items pend (AChar (CHR ''-'')))
      else class_push p neg items pend (AChar c))"

text \<open>
  The text between braces is a repetition when it is a number, a number and a comma, or
  two numbers with a comma between them.
\<close>

definition is_digit :: "char \<Rightarrow> bool" where
  "is_digit c = (let n = of_char c :: nat in 48 \<le> n \<and> n \<le> 57)"

definition number :: "string \<Rightarrow> nat" where
  "number ds = foldl (\<lambda>n d. 10 * n + (of_char d - 48)) 0 ds"

definition brace_count :: "string \<Rightarrow> (nat \<times> nat option) option" where
  "brace_count s =
     (let a = takeWhile is_digit s; rest = dropWhile is_digit s
      in if a = [] then None
         else (case rest of
                 [] \<Rightarrow> Some (number a, Some (number a))
               | c # b \<Rightarrow>
                   if c = CHR '','' \<and> list_all is_digit b
                   then Some (number a, if b = [] then None else Some (number b))
                   else None))"

definition counted :: "parser \<Rightarrow> nat \<Rightarrow> nat option \<Rightarrow> parse_error + parser" where
  "counted p lo hi =
     (case terms p of
        (r, Plain) # ts \<Rightarrow>
          if (case hi of None \<Rightarrow> False | Some h \<Rightarrow> h < lo)
          then Inl (Invalid ''numbers out of order in {} quantifier'')
          else Inr (p\<lparr>terms := (r, Greedy (QCount lo hi)) # ts, mode := Normal\<rparr>)
      | _ \<Rightarrow> Inl (Invalid ''Nothing to repeat''))"

text \<open>A brace that opens no repetition, and what was read after it, are literal characters.\<close>

definition brace_literal :: "parser \<Rightarrow> string \<Rightarrow> parser" where
  "brace_literal p read =
     p\<lparr>terms := map (\<lambda>c. (Chr c, Plain)) read @ (Chr (CHR ''{''), Plain) # terms p,
       mode := Normal\<rparr>"

definition normal_char :: "parser \<Rightarrow> char \<Rightarrow> parse_error + parser" where
  "normal_char p c =
     (if c = CHR 0x5C then Inr (p\<lparr>mode := Escape\<rparr>)
      else if c = CHR ''('' then
        Inr (p\<lparr>stack := (alts p, terms p) # stack p, alts := [], terms := [], mode := GroupOpen\<rparr>)
      else if c = CHR '')'' then
        (case stack p of
           [] \<Rightarrow> Inl (Invalid (''Unmatched '' @ [CHR 0x27, CHR '')'', CHR 0x27]))
         | (as, ts) # st \<Rightarrow>
             Inr (p\<lparr>stack := st, alts := as,
                    terms := (build_group (alts p) (build_alt (terms p)), Plain) # ts,
                    mode := Normal\<rparr>))
      else if c = CHR ''|'' then
        Inr (p\<lparr>alts := build_alt (terms p) # alts p, terms := [], mode := Normal\<rparr>)
      else if c = CHR ''*'' then quantify p QStar
      else if c = CHR ''+'' then quantify p QPlus
      else if c = CHR ''?'' then question p
      else if c = CHR ''['' then Inr (p\<lparr>mode := ClassStart\<rparr>)
      else if c = CHR ''{'' then Inr (p\<lparr>mode := Brace []\<rparr>)
      else if c = CHR ''.'' then add_term p Dot Plain
      else if c = CHR ''^'' then add_term p Bol Assertion
      else if c = CHR ''$'' then add_term p Eol Assertion
      else add_term p (Chr c) Plain)"

text \<open>
  After a brace: digits and one comma after a digit are read on; a closing brace after a
  count makes the repetition; anything else makes the brace and what was read literal
  and is then read as usual.
\<close>

definition brace_char :: "parser \<Rightarrow> string \<Rightarrow> char \<Rightarrow> parse_error + parser" where
  "brace_char p read c =
     (if is_digit c then Inr (p\<lparr>mode := Brace (c # read)\<rparr>)
      else if c = CHR '','' \<and> read \<noteq> [] \<and> CHR '','' \<notin> set read then
        Inr (p\<lparr>mode := Brace (c # read)\<rparr>)
      else if c = CHR ''}'' then
        (case brace_count (rev read) of
           Some (lo, hi) \<Rightarrow> counted (p\<lparr>mode := Normal\<rparr>) lo hi
         | None \<Rightarrow> normal_char (brace_literal p read) c)
      else normal_char (brace_literal p read) c)"

definition parse_char :: "parser \<Rightarrow> char \<Rightarrow> parse_error + parser" where
  "parse_char p c =
     (case mode p of
        Normal \<Rightarrow> normal_char p c
      | Escape \<Rightarrow> escape_atom p c
      | GroupOpen \<Rightarrow>
          if c = CHR ''?'' then Inr (p\<lparr>mode := GroupSpec\<rparr>)
          else normal_char (p\<lparr>mode := Normal\<rparr>) c
      | GroupSpec \<Rightarrow> if c = CHR '':'' then Inr (p\<lparr>mode := Normal\<rparr>) else Inl Unsupported
      | Brace read \<Rightarrow> brace_char p read c
      | ClassStart \<Rightarrow>
          if c = CHR ''^'' then Inr (p\<lparr>mode := ClassBody True [] PNone\<rparr>)
          else class_char p False [] PNone c
      | ClassBody neg items pend \<Rightarrow> class_char p neg items pend c
      | ClassEscape neg items pend \<Rightarrow> escape_class p neg items pend c)"

definition finish :: "parser \<Rightarrow> parse_error + regex" where
  "finish p =
     (if stack p = [] then Inr (build_group (alts p) (build_alt (terms p)))
      else Inl (Invalid ''Unterminated group''))"

definition parse_end :: "parser \<Rightarrow> parse_error + regex" where
  "parse_end p =
     (case mode p of
        Normal \<Rightarrow> finish p
      | GroupOpen \<Rightarrow> finish p
      | GroupSpec \<Rightarrow> Inl (Invalid ''Invalid group'')
      | Brace read \<Rightarrow> finish (brace_literal p read)
      | Escape \<Rightarrow> Inl (Invalid (CHR 0x5C # '' at end of pattern''))
      | ClassEscape neg items pend \<Rightarrow> Inl (Invalid (CHR 0x5C # '' at end of pattern''))
      | ClassStart \<Rightarrow> Inl (Invalid ''Unterminated character class'')
      | ClassBody neg items pend \<Rightarrow> Inl (Invalid ''Unterminated character class''))"

fun parse_from :: "parser \<Rightarrow> string \<Rightarrow> parse_error + regex" where
  "parse_from p [] = parse_end p"
| "parse_from p (c # cs) = (case parse_char p c of Inl e \<Rightarrow> Inl e | Inr p' \<Rightarrow> parse_from p' cs)"

text \<open>\<open>new RegExp(pat, 'gi')\<close>, with the message of the syntax error as V8 words it.\<close>

definition js_RegExp_gi :: "string \<Rightarrow> js_error + regex" where
  "js_RegExp_gi pat =
     (case parse_from parser_init pat of
        Inl (Invalid why) \<Rightarrow>
          Inl (SyntaxError (''Invalid regular expression: /'' @ pat @ ''/gi: '' @ why))
      | Inl Unsupported \<Rightarrow> Inl (OutsideFragment pat)
      | Inr r \<Rightarrow> Inr r)"

text \<open>The concrete platform over a directory listing \<open>ls\<close>.\<close>

definition js_platform :: "(string \<Rightarrow> js_error + string list) \<Rightarrow> regex platform" where
  "js_platform ls = \<lparr>RegExp_gi = js_RegExp_gi, replace_empty = js_replace_empty,
            toLowerCase = js_toLowerCase, trim = js_trim, listDirectory = ls\<rparr>"

subsection \<open>The reference definition of the match key\<close>

text \<open>
  After the words of the specification: the match key is the lower-cased filename, with
  every rule applied in declaration order, each application removing every occurrence of
  the pattern, matched without regard to case, and then trimmed of leading and trailing
  white space. The notions are defined here on their own: letters and their case by a
  table, a match of a pattern by rules, the removal of all occurrences by a pass from left
  to right, trimming by what is cut off.
\<close>

text \<open>The upper-case letters of Latin-1 and, at the same places, their lower-case forms.\<close>

definition upper_letters :: string where
  "upper_letters = ''ABCDEFGHIJKLMNOPQRSTUVWXYZ'' @
     [CHR 0xC0, CHR 0xC1, CHR 0xC2, CHR 0xC3, CHR 0xC4, CHR 0xC5, CHR 0xC6, CHR 0xC7,
      CHR 0xC8, CHR 0xC9, CHR 0xCA, CHR 0xCB, CHR 0xCC, CHR 0xCD, CHR 0xCE, CHR 0xCF,
      CHR 0xD0, CHR 0xD1, CHR 0xD2, CHR 0xD3, CHR 0xD4, CHR 0xD5, CHR 0xD6,
      CHR 0xD8, CHR 0xD9, CHR 0xDA, CHR 0xDB, CHR 0xDC, CHR 0xDD, CHR 0xDE]"

definition lower_letters :: string where
  "lower_letters = ''abcdefghijklmnopqrstuvwxyz'' @
     [CHR 0xE0, CHR 0xE1, CHR 0xE2, CHR 0xE3, CHR 0xE4, CHR 0xE5, CHR 0xE6, CHR 0xE7,
      CHR 0xE8, CHR 0xE9, CHR 0xEA, CHR 0xEB, CHR 0xEC, CHR 0xED, CHR 0xEE, CHR 0xEF,
      CHR 0xF0, CHR 0xF1, CHR 0xF2, CHR 0xF3, CHR 0xF4, CHR 0xF5, CHR 0xF6,
      CHR 0xF8, CHR 0xF9, CHR 0xFA, CHR 0xFB, CHR 0xFC, CHR 0xFD, CHR 0xFE]"

definition letter_pairs :: "(char \<times> char) list" where
  "letter_pairs = zip upper_letters lower_letters"

text \<open>Lower-casing replaces every upper-case letter by its lower-case form.\<close>

definition lower_form :: "char \<Rightarrow> char" where
  "lower_form c = (case map_of letter_pairs c of None \<Rightarrow> c | Some l \<Rightarrow> l)"


text \<open>Without regard to case: two characters with the same lower-case form.\<close>

definition same_letter :: "char \<Rightarrow> char \<Rightarrow> bool" where
  "same_letter a c \<longleftrightarrow> lower_form a = lower_form c"

definition white_space :: string where
  "white_space = [CHR 0x09, CHR 0x0A, CHR 0x0B, CHR 0x0C, CHR 0x0D, CHR 0x20, CHR 0xA0]"

definition line_ends :: string where
  "line_ends = [CHR 0x0A, CHR 0x0D]"

fun members :: "char_set \<Rightarrow> string" where
  "members Space = white_space"
| "members Digit = ''0123456789''"
| "members Word = ''ABCDEFGHIJKLMNOPQRSTUVWXYZabcdefghijklmnopqrstuvwxyz0123456789_''"

text \<open>What a member of a class lists, and the characters of a class without regard to case.\<close>

fun listed :: "class_item \<Rightarrow> char \<Rightarrow> bool" where
  "listed (CChar a) x = (x = a)"
| "listed (CRange a b) x = ((of_char a :: nat) \<le> of_char x \<and> (of_char x :: nat) \<le> of_char b)"
| "listed (CSet pos cs) x = ((x \<in> set (members cs)) = pos)"

definition in_class :: "class_item list \<Rightarrow> char \<Rightarrow> bool" where
  "in_class items c \<longleftrightarrow> (\<exists>i \<in> set items. \<exists>x. listed i x \<and> same_letter x c)"

text \<open>
  \<open>accepts r n s t\<close>: in an input of length \<open>n\<close>, the pattern \<open>r\<close> matches the characters of
  the rest \<open>s\<close> that stand before its rest \<open>t\<close>.
\<close>

inductive accepts :: "regex \<Rightarrow> nat \<Rightarrow> string \<Rightarrow> string \<Rightarrow> bool" where
  a_eps: "accepts Eps n s s"
| a_chr: "same_letter a c \<Longrightarrow> accepts (Chr a) n (c # cs) cs"
| a_dot: "c \<notin> set line_ends \<Longrightarrow> accepts Dot n (c # cs) cs"
| a_cls: "in_class items c \<noteq> neg \<Longrightarrow> accepts (Cls neg items) n (c # cs) cs"
| a_bol: "length s = n \<Longrightarrow> accepts Bol n s s"
| a_eol: "accepts Eol n [] []"
| a_cat: "accepts r1 n s t \<Longrightarrow> accepts r2 n t u \<Longrightarrow> accepts (Cat r1 r2) n s u"
| a_alt1: "accepts r1 n s t \<Longrightarrow> accepts (Alt r1 r2) n s t"
| a_alt2: "accepts r2 n s t \<Longrightarrow> accepts (Alt r1 r2) n s t"
| a_opt0: "accepts (Opt g r) n s s"
| a_opt1: "accepts r n s t \<Longrightarrow> accepts (Opt g r) n s t"
| a_star0: "accepts (Star g r) n s s"
| a_star1: "accepts r n s t \<Longrightarrow> accepts (Star g r) n t u \<Longrightarrow> accepts (Star g r) n s u"
| a_some: "accepts r n s t \<Longrightarrow> t \<noteq> s \<Longrightarrow> accepts (NonEmpty r) n s t"





subsection \<open>Notions for the statements\<close>

text \<open>A job without its identifier, and the three paths of a job.\<close>

definition strip_id :: "BatchJobItem \<Rightarrow> BatchJobItem" where
  "strip_id j = j\<lparr>jobId := []\<rparr>"

definition paths :: "BatchJobItem \<Rightarrow> string \<times> string \<times> string" where
  "paths j = (refVideo j, foreignVideo j, outputVideo j)"

text \<open>The paths of the job that a preview row with a match stands for.\<close>

definition row_paths :: "component \<Rightarrow> PreviewRow \<Rightarrow> (string \<times> string \<times> string) option" where
  "row_paths st row =
     map_option (\<lambda>f. (refFolder st @ ''/'' @ ref row, foreignFolder st @ ''/'' @ f,
                       outputFolder st @ ''/'' @ ref row)) (foreign row)"


text \<open>
  A pass that reaches the two loops: the three folders are set, both listings arrive and
  the non-empty patterns compile to \<open>rs\<close>.
\<close>

definition loads :: "'rx platform \<Rightarrow> component \<Rightarrow> string list \<Rightarrow> string list \<Rightarrow> 'rx list \<Rightarrow> bool" where
  "loads P st refFiles foreignFiles rs \<longleftrightarrow>
     refFolder st \<noteq> [] \<and> foreignFolder st \<noteq> [] \<and> outputFolder st \<noteq> [] \<and>
     listDirectory P (refFolder st) = Inr refFiles \<and>
     listDirectory P (foreignFolder st) = Inr foreignFiles \<and>
     regexes P (patterns st) = Inr rs"

text \<open>The key of a filename under raw patterns, or the exception of their compilation.\<close>

definition matchKey_of :: "'rx platform \<Rightarrow> string list \<Rightarrow> string \<Rightarrow> js_error + string" where
  "matchKey_of P pats f = map_sum id (buildMatchKey P f) (regexes P pats)"

subsection \<open>A concrete run\<close>

text \<open>
  Two folders with a file that is no video, two foreign files with one key and two
  reference files with that key.
\<close>

definition demo_refFiles :: "string list" where
  "demo_refFiles = [''a.avi'', ''notes.txt'', ''A_.mov'', ''b.mkv'']"

definition demo_foreignFiles :: "string list" where
  "demo_foreignFiles = [''a.mkv'', ''notes.txt'', ''A.mp4'']"

definition demo_ls :: "string \<Rightarrow> js_error + string list" where
  "demo_ls d =
     (if d = ''/ref'' then Inr demo_refFiles
      else if d = ''/foreign'' then Inr demo_foreignFiles
      else Inl (IOError ''ENOENT''))"

definition demo_st :: component where
  "demo_st = \<lparr>refFolder = ''/ref'', foreignFolder = ''/foreign'', outputFolder = ''/out'',
              jobs = [], patterns = DEFAULT_PATTERNS, preview = []\<rparr>"

definition demo_props :: props where
  "demo_props = \<lparr>params = \<lparr>p_firstSegmentAdjust = None, p_lastSegmentAdjust = Some 3,
                          p_noSubtitles = None\<rparr>, has_onJobsChange = True\<rparr>"

definition demo_clock :: clock where
  "demo_clock k = (1000 + k, ''0.5'')"

definition demo_rs :: "regex list" where
  "demo_rs = [r. Inr r \<leftarrow> map js_RegExp_gi DEFAULT_PATTERNS]"

text \<open>The folders are set and both listings arrive.\<close>

definition ready :: "'rx platform \<Rightarrow> component \<Rightarrow> string list \<Rightarrow> string list \<Rightarrow> bool" where
  "ready P st refFiles foreignFiles \<longleftrightarrow>
     refFolder st \<noteq> [] \<and> foreignFolder st \<noteq> [] \<and> outputFolder st \<noteq> [] \<and>
     listDirectory P (refFolder st) = Inr refFiles \<and>
     listDirectory P (foreignFolder st) = Inr foreignFiles"

text \<open>The folder of the example of the specification.\<close>

definition show_ls :: "string \<Rightarrow> js_error + string list" where
  "show_ls d =
     (if d = ''/ref'' then Inr [''Show.S01E01.1080p.mkv'']
      else if d = ''/foreign'' then Inr [''show_s01e01_eng.mp4'']
      else Inl (IOError ''ENOENT''))"



section \<open>Properties\<close>

subsection \<open>The loops\<close>

lemma buildMatchKey_loop_fold: "buildMatchKey_loop P k ps = fold (replace_empty P) ps k"
  by (induction ps arbitrary: k) simp_all

lemma foreignMap_loop_last:
  "foreignMap_loop P rs m fs k =
     (if filter (\<lambda>f. buildMatchKey P f rs = k) fs = [] then m k
      else Some (last (filter (\<lambda>f. buildMatchKey P f rs = k) fs)))"
  by (induction fs arbitrary: m) auto

lemma foreignMap_loop_ran:
  assumes "foreignMap_loop P rs m fs k = Some f"
  shows "m k = Some f \<or> f \<in> set fs"
proof (cases "filter (\<lambda>g. buildMatchKey P g rs = k) fs = []")
  case True
  then show ?thesis using assms by (simp add: foreignMap_loop_last)
next
  case False
  then have "f = last (filter (\<lambda>g. buildMatchKey P g rs = k) fs)"
    using assms by (simp add: foreignMap_loop_last)
  then have "f \<in> set (filter (\<lambda>g. buildMatchKey P g rs = k) fs)"
    using False last_in_set by blast
  then show ?thesis by simp
qed

lemma isVideo_nonempty: "toLowerCase P [] = [] \<Longrightarrow> isVideo P f \<Longrightarrow> f \<noteq> []"
  by (auto simp: isVideo_def endsWith_def videoExtensions_def)

lemma match_loop_rows:
  "snd (match_loop P pr st clk rs m (matched, rows) refs) =
     rows @ map (\<lambda>r. \<lparr>ref = r, foreign = or_null (m (buildMatchKey P r rs)),
                      key = buildMatchKey P r rs\<rparr>) refs"
  by (induction refs arbitrary: matched rows) (simp_all add: Let_def)

lemma match_loop_paths:
  "map paths (fst (match_loop P pr st clk rs m (matched, rows) refs)) =
     map paths matched @
     List.map_filter (\<lambda>r. row_paths st \<lparr>ref = r, foreign = or_null (m (buildMatchKey P r rs)),
                      key = buildMatchKey P r rs\<rparr>) refs"
  by (induction refs arbitrary: matched rows)
     (auto simp: Let_def List.map_filter_simps row_paths_def or_null_def truthy_def paths_def new_job_def
           split: option.splits)

lemma strip_id_new_job: "strip_id (new_job pr st t r f) = strip_id (new_job pr st t' r f)"
  by (simp add: strip_id_def new_job_def)

lemma match_loop_clock_rows:
  "snd (match_loop P pr st clk rs m (matched, rows) refs) =
   snd (match_loop P pr st clk' rs m (matched', rows) refs)"
  by (simp add: match_loop_rows)

lemma match_loop_clock_jobs:
  "map strip_id matched = map strip_id matched' \<Longrightarrow>
   map strip_id (fst (match_loop P pr st clk rs m (matched, rows) refs)) =
   map strip_id (fst (match_loop P pr st clk' rs m (matched', rows') refs))"
proof (induction refs arbitrary: matched matched' rows rows')
  case Nil
  then show ?case by simp
next
  case (Cons r refs)
  show ?case
  proof (cases "m (buildMatchKey P r rs)")
    case None
    then show ?thesis using Cons.IH [OF Cons.prems] by (simp add: Let_def)
  next
    case (Some f)
    have "map strip_id (matched @ [new_job pr st (clk (length matched)) r f]) =
          map strip_id (matched' @ [new_job pr st (clk' (length matched')) r f])"
      using Cons.prems strip_id_new_job by simp
    then show ?thesis
      using Some Cons.IH Cons.prems by (simp add: Let_def)
  qed
qed


lemma handleLoadJobs_loads:
  assumes "loads P st refFiles foreignFiles rs"
  shows "handleLoadJobs P pr clk st =
     (let ml = match_loop P pr st clk rs
                 (foreignMap_loop P rs Map.empty (filter (isVideo P) foreignFiles)) ([], [])
                 (filter (isVideo P) refFiles)
      in (st\<lparr>preview := snd ml, jobs := fst ml\<rparr>,
          if has_onJobsChange pr then [JobsChange (fst ml)] else []))"
  using assms
  by (simp add: loads_def handleLoadJobs_def load_try_def Let_def split: prod.splits)

lemma loads_preview:
  assumes "loads P st refFiles foreignFiles rs"
  shows "preview (fst (handleLoadJobs P pr clk st)) =
     map (\<lambda>r. \<lparr>ref = r,
                foreign = or_null (foreignMap_loop P rs Map.empty (filter (isVideo P) foreignFiles)
                                     (buildMatchKey P r rs)),
                key = buildMatchKey P r rs\<rparr>) (filter (isVideo P) refFiles)"
  by (simp add: handleLoadJobs_loads [OF assms] Let_def match_loop_rows)

lemma map_filter_map: "List.map_filter f (map g xs) = List.map_filter (\<lambda>x. f (g x)) xs"
  by (simp add: List.map_filter_def filter_map comp_def)

lemma loads_paths:
  assumes "loads P st refFiles foreignFiles rs"
  shows "map paths (jobs (fst (handleLoadJobs P pr clk st))) =
     List.map_filter (row_paths st) (preview (fst (handleLoadJobs P pr clk st)))"
  unfolding loads_preview [OF assms]
  by (simp add: handleLoadJobs_loads [OF assms] Let_def match_loop_paths map_filter_map)

lemma loads_foreign_nonempty:
  assumes "loads P st refFiles foreignFiles rs" and "toLowerCase P [] = []"
  shows "or_null (foreignMap_loop P rs Map.empty (filter (isVideo P) foreignFiles) k) =
         foreignMap_loop P rs Map.empty (filter (isVideo P) foreignFiles) k"
proof (cases "foreignMap_loop P rs Map.empty (filter (isVideo P) foreignFiles) k")
  case None
  then show ?thesis by (simp add: or_null_def)
next
  case (Some f)
  then have "f \<in> set (filter (isVideo P) foreignFiles)"
    using foreignMap_loop_ran [OF Some] by simp
  then have "f \<noteq> []" using isVideo_nonempty [OF assms(2)] by auto
  then show ?thesis using Some by (simp add: or_null_def truthy_def)
qed

subsection \<open>The concrete run, evaluated\<close>

lemma demo_loads: "loads (js_platform demo_ls) demo_st demo_refFiles demo_foreignFiles demo_rs"
  by code_simp

lemma demo_lower_empty: "toLowerCase (js_platform demo_ls) [] = []"
  by code_simp

lemma demo_refVideos:
  "filter (isVideo (js_platform demo_ls)) demo_refFiles = [''a.avi'', ''A_.mov'', ''b.mkv'']"
  by code_simp

lemma demo_foreignVideos:
  "filter (isVideo (js_platform demo_ls)) demo_foreignFiles = [''a.mkv'', ''A.mp4'']"
  by code_simp

lemma demo_lookup:
  "foreignMap_loop (js_platform demo_ls) demo_rs Map.empty [''a.mkv'', ''A.mp4''] ''a'' = Some ''A.mp4''"
  by code_simp

lemma demo_run:
  "handleLoadJobs (js_platform demo_ls) demo_props demo_clock demo_st =
     (demo_st\<lparr>preview :=
         [\<lparr>ref = ''a.avi'', foreign = Some ''A.mp4'', key = ''a''\<rparr>,
          \<lparr>ref = ''A_.mov'', foreign = Some ''A.mp4'', key = ''a''\<rparr>,
          \<lparr>ref = ''b.mkv'', foreign = None, key = ''b''\<rparr>],
        jobs :=
         [\<lparr>jobId = ''batch-1000-0.5'', refVideo = ''/ref/a.avi'',
           foreignVideo = ''/foreign/A.mp4'', outputVideo = ''/out/a.avi'',
           firstSegmentAdjust = 0, lastSegmentAdjust = 3,
           skipSubtitles = False, status = pending\<rparr>,
          \<lparr>jobId = ''batch-1001-0.5'', refVideo = ''/ref/A_.mov'',
           foreignVideo = ''/foreign/A.mp4'', outputVideo = ''/out/A_.mov'',
           firstSegmentAdjust = 0, lastSegmentAdjust = 3,
           skipSubtitles = False, status = pending\<rparr>]\<rparr>,
      [JobsChange
         [\<lparr>jobId = ''batch-1000-0.5'', refVideo = ''/ref/a.avi'',
           foreignVideo = ''/foreign/A.mp4'', outputVideo = ''/out/a.avi'',
           firstSegmentAdjust = 0, lastSegmentAdjust = 3,
           skipSubtitles = False, status = pending\<rparr>,
          \<lparr>jobId = ''batch-1001-0.5'', refVideo = ''/ref/A_.mov'',
           foreignVideo = ''/foreign/A.mp4'', outputVideo = ''/out/A_.mov'',
           firstSegmentAdjust = 0, lastSegmentAdjust = 3,
           skipSubtitles = False, status = pending\<rparr>]])"
  by code_simp

subsection \<open>What the handlers read\<close>

lemma buildMatchKey_cong:
  assumes "replace_empty P' = replace_empty P" "toLowerCase P' = toLowerCase P" "trim P' = trim P"
  shows "buildMatchKey P' f rs = buildMatchKey P f rs"
  using assms by (simp add: buildMatchKey_def buildMatchKey_loop_fold)

lemma isVideo_cong: "toLowerCase P' = toLowerCase P \<Longrightarrow> isVideo P' = isVideo P"
  by (simp add: isVideo_def fun_eq_iff)

lemma compile_all_cong:
  "(\<And>p. p \<in> set ps \<Longrightarrow> RegExp_gi P' p = RegExp_gi P p) \<Longrightarrow> compile_all P' ps = compile_all P ps"
  by (induction ps) (simp_all split: sum.splits)

lemma foreignMap_loop_cong:
  "(\<And>f. buildMatchKey P' f rs = buildMatchKey P f rs) \<Longrightarrow>
   foreignMap_loop P' rs m fs = foreignMap_loop P rs m fs"
  by (induction fs arbitrary: m) simp_all

lemma match_loop_cong:
  assumes "\<And>f. buildMatchKey P' f rs = buildMatchKey P f rs"
    and "\<And>t r f. new_job pr st' t r f = new_job pr st t r f"
  shows "match_loop P' pr st' clk rs m acc refs = match_loop P pr st clk rs m acc refs"
proof (induction refs arbitrary: acc)
  case Nil
  show ?case by (cases acc) simp
next
  case (Cons r refs)
  show ?case by (cases acc) (simp add: assms Cons.IH Let_def split: option.splits)
qed

subsection \<open>Compilation\<close>

lemma compile_all_fails:
  "p \<in> set ps \<Longrightarrow> isl (RegExp_gi P p) \<Longrightarrow> isl (compile_all P ps)"
  by (induction ps) (auto split: sum.splits)

lemma compile_all_first:
  "compile_all P ps = Inl e \<Longrightarrow>
   \<exists>as q bs. ps = as @ q # bs \<and> list_all (\<lambda>a. \<not> isl (RegExp_gi P a)) as \<and> RegExp_gi P q = Inl e"
proof (induction ps)
  case Nil
  then show ?case by simp
next
  case (Cons p ps)
  show ?case
  proof (cases "RegExp_gi P p")
    case (Inl e')
    then have "e' = e" using Cons.prems by simp
    then have "p # ps = [] @ p # ps \<and> list_all (\<lambda>a. \<not> isl (RegExp_gi P a)) [] \<and> RegExp_gi P p = Inl e"
      using Inl by simp
    then show ?thesis by blast
  next
    case (Inr r)
    then have "compile_all P ps = Inl e" using Cons.prems by (simp split: sum.splits)
    then obtain as q bs where
      "ps = as @ q # bs" "list_all (\<lambda>a. \<not> isl (RegExp_gi P a)) as" "RegExp_gi P q = Inl e"
      using Cons.IH by blast
    then have "p # ps = (p # as) @ q # bs \<and> list_all (\<lambda>a. \<not> isl (RegExp_gi P a)) (p # as) \<and>
               RegExp_gi P q = Inl e"
      using Inr by simp
    then show ?thesis by blast
  qed
qed

subsection \<open>Requests to add to the queue\<close>


lemma handleAddToQueue_setters:
  "fst (handleAddToQueue pr st) = fold set_state (addToQueue_setters st) st"
  by (simp add: handleAddToQueue_def addToQueue_setters_def)



subsection \<open>The example of the specification, evaluated\<close>

lemma show_key_ref:
  "matchKey_of (js_platform ls) DEFAULT_PATTERNS ''Show.S01E01.1080p.mkv'' = Inr ''shows01e01''"
  by code_simp

lemma show_key_foreign:
  "matchKey_of (js_platform ls) DEFAULT_PATTERNS ''show_s01e01_eng.mp4'' = Inr ''shows01e01''"
  by code_simp

lemma show_isVideo_ref: "isVideo (js_platform ls) ''Show.S01E01.1080p.mkv''"
  by code_simp

lemma show_isVideo_foreign: "isVideo (js_platform ls) ''show_s01e01_eng.mp4''"
  by code_simp

subsection \<open>Letters, white space and classes of the concrete platform\<close>

lemma mem_codes: "c \<in> set s \<longleftrightarrow> (of_char c :: nat) \<in> set (map of_char s)"
  by (auto simp: image_iff)

lemma upper_codes:
  "map of_char upper_letters = [65..<91] @ [192..<215] @ [216..<223::nat]"
  by (simp add: upper_letters_def upt_rec_numeral)

lemma lower_codes:
  "map of_char lower_letters = map (\<lambda>n. n + 32) ([65..<91] @ [192..<215] @ [216..<223::nat])"
  by (simp add: lower_letters_def upt_rec_numeral)

lemma space_codes: "map of_char white_space = [9, 10, 11, 12, 13, 32, 160::nat]"
  by (simp add: white_space_def)

lemma word_codes:
  "map of_char (members Word) = [65..<91] @ [97..<123] @ [48..<58] @ [95::nat]"
  by (simp add: upt_rec_numeral)

lemma digit_codes: "map of_char (members Digit) = [48..<58::nat]"
  by (simp add: upt_rec_numeral)

lemma upper_lower: "upper_char (lower_char c) = upper_char c"
  by (auto simp: upper_char_def lower_char_def Let_def)

lemma lower_upper: "lower_char (upper_char c) = lower_char c"
  by (auto simp: upper_char_def lower_char_def Let_def)

lemma lower_or_upper: "lower_char a = a \<or> upper_char (lower_char a) = a"
  by (auto simp: upper_char_def lower_char_def Let_def)

lemma is_space_iff: "is_space c \<longleftrightarrow> c \<in> set white_space"
  unfolding mem_codes [of c white_space] space_codes
  by (auto simp: is_space_def Let_def)

lemma in_set_iff: "in_set cs c \<longleftrightarrow> c \<in> set (members cs)"
proof (cases cs)
  case Space
  thus ?thesis using is_space_iff [of c] by (simp add: in_set_def is_space_def)
next
  case Digit
  show ?thesis unfolding Digit mem_codes [of c "members Digit"] digit_codes set_upt
    by (auto simp: in_set_def Let_def)
next
  case Word
  show ?thesis unfolding Word mem_codes [of c "members Word"] word_codes set_append set_upt
    by (auto simp: in_set_def Let_def)
qed

lemma in_set_lower: "in_set cs (lower_char c) = in_set cs c"
  by (cases cs) (auto simp: in_set_def lower_char_def Let_def)

lemma pair_codes:
  assumes "(u, l) \<in> set letter_pairs"
  shows "(of_char l :: nat) = of_char u + 32" and "u \<in> set upper_letters"
proof -
  define codes where "codes = [65..<91] @ [192..<215] @ [216..<223::nat]"
  from assms obtain i where i: "upper_letters ! i = u" "lower_letters ! i = l"
      "i < length upper_letters" "i < length lower_letters"
    by (auto simp: letter_pairs_def in_set_zip)
  have up: "map of_char upper_letters = codes"
    and low: "map of_char lower_letters = map (\<lambda>n. n + 32) codes"
    unfolding codes_def by (rule upper_codes, rule lower_codes)
  have len: "i < length codes"
    using i(3) arg_cong [OF up, of length] by simp
  have "(of_char u :: nat) = map of_char upper_letters ! i" using i by simp
  hence u: "of_char u = codes ! i" by (simp only: up)
  have "(of_char l :: nat) = map of_char lower_letters ! i" using i by simp
  hence "of_char l = map (\<lambda>n. n + 32) codes ! i" by (simp only: low)
  hence "of_char l = codes ! i + 32" using len by simp
  with u show "(of_char l :: nat) = of_char u + 32" by simp
  from i show "u \<in> set upper_letters" by auto
qed

lemma pair_exists: "u \<in> set upper_letters \<Longrightarrow> \<exists>l. (u, l) \<in> set letter_pairs"
proof -
  assume u: "u \<in> set upper_letters"
  have "length upper_letters = length lower_letters"
    using arg_cong [OF upper_codes, of length] arg_cong [OF lower_codes, of length] by simp
  with u show ?thesis
    unfolding letter_pairs_def by (metis in_set_impl_in_set_zip1)
qed

lemma upper_letters_iff:
  "c \<in> set upper_letters \<longleftrightarrow>
     (let n = of_char c :: nat
      in (65 \<le> n \<and> n \<le> 90) \<or> (192 \<le> n \<and> n \<le> 214) \<or> (216 \<le> n \<and> n \<le> 222))"
  unfolding mem_codes [of c upper_letters] upper_codes set_append set_upt
  by (auto simp: Let_def)

lemma lower_form_eq: "lower_form c = lower_char c"
proof (cases "map_of letter_pairs c")
  case None
  hence none: "c \<notin> fst ` set letter_pairs" by (simp add: map_of_eq_None_iff)
  have "c \<notin> set upper_letters"
  proof
    assume "c \<in> set upper_letters"
    then obtain l where "(c, l) \<in> set letter_pairs" using pair_exists by blast
    hence "c \<in> fst ` set letter_pairs" by force
    with none show False by simp
  qed
  hence "lower_char c = c"
    unfolding upper_letters_iff by (auto simp: lower_char_def Let_def)
  with None show ?thesis by (simp add: lower_form_def)
next
  case (Some l)
  hence "(c, l) \<in> set letter_pairs" by (rule map_of_SomeD)
  from pair_codes [OF this] have l: "(of_char l :: nat) = of_char c + 32"
    and c: "c \<in> set upper_letters" .
  from c have "lower_char c = char_of (of_char c + 32 :: nat)"
    unfolding upper_letters_iff by (auto simp: lower_char_def Let_def)
  also have "\<dots> = char_of (of_char l :: nat)" by (simp only: l)
  also have "\<dots> = l" by simp
  finally show ?thesis using Some by (simp add: lower_form_def)
qed


lemma same_letter_lower: "same_letter a c \<longleftrightarrow> lower_char a = lower_char c"
  by (simp add: same_letter_def lower_form_eq)

lemma same_letter_upper: "same_letter a c \<longleftrightarrow> upper_char a = upper_char c"
  unfolding same_letter_lower by (metis lower_upper upper_lower)

lemma same_letter_cases:
  "same_letter x c \<longleftrightarrow> x = c \<or> x = upper_char c \<or> x = lower_char c"
  unfolding same_letter_lower by (metis lower_upper upper_lower lower_or_upper)

lemma in_set_same: "same_letter x c \<Longrightarrow> in_set cs x = in_set cs c"
  unfolding same_letter_lower by (metis in_set_lower)

lemma item_has_iff: "item_has i c \<longleftrightarrow> (\<exists>x. listed i x \<and> same_letter x c)"
proof (cases i)
  case (CChar a)
  thus ?thesis by (simp add: same_letter_upper)
next
  case (CRange a b)
  have "item_has (CRange a b) c \<longleftrightarrow>
      listed (CRange a b) c \<or> listed (CRange a b) (upper_char c) \<or>
      listed (CRange a b) (lower_char c)"
    by (simp add: Let_def)
  also have "\<dots> \<longleftrightarrow> (\<exists>x. listed (CRange a b) x \<and> same_letter x c)"
    unfolding same_letter_cases by blast
  finally show ?thesis unfolding CRange .
next
  case (CSet pos cs)
  show ?thesis unfolding CSet
  proof
    assume "item_has (CSet pos cs) c"
    hence "listed (CSet pos cs) c" by (simp add: in_set_iff)
    moreover have "same_letter c c" by (simp add: same_letter_def)
    ultimately show "\<exists>x. listed (CSet pos cs) x \<and> same_letter x c" by blast
  next
    assume "\<exists>x. listed (CSet pos cs) x \<and> same_letter x c"
    then obtain x where x: "listed (CSet pos cs) x" "same_letter x c" by blast
    from x(1) have "in_set cs x = pos" by (simp add: in_set_iff)
    moreover from x(2) have "in_set cs x = in_set cs c" by (rule in_set_same)
    ultimately show "item_has (CSet pos cs) c" by simp
  qed
qed

lemma in_class_iff: "list_ex (\<lambda>i. item_has i c) items \<longleftrightarrow> in_class items c"
  by (simp add: list_ex_iff in_class_def item_has_iff)

subsection \<open>The matcher and the matches of a pattern\<close>

lemma accepts_suffix: "accepts r n s t \<Longrightarrow> \<exists>p. s = p @ t"
proof (induction rule: accepts.induct)
  case (a_cat r1 n s t r2 u)
  then obtain p q where "s = p @ t" "t = q @ u" by blast
  hence "s = (p @ q) @ u" by simp
  thus ?case by blast
next
  case (a_star1 r n s t g u)
  then obtain p q where "s = p @ t" "t = q @ u" by blast
  hence "s = (p @ q) @ u" by simp
  thus ?case by blast
next
  case (a_chr a c n cs)
  have "c # cs = [c] @ cs" by simp
  thus ?case by blast
next
  case (a_dot c n cs)
  have "c # cs = [c] @ cs" by simp
  thus ?case by blast
next
  case (a_cls items c neg n cs)
  have "c # cs = [c] @ cs" by simp
  thus ?case by blast
qed auto

lemma accepts_same: "accepts r n s t \<Longrightarrow> \<not> length t < length s \<Longrightarrow> t = s"
  using accepts_suffix [of r n s t] by auto

lemma matches_sound: "t \<in> set (matches r n s) \<Longrightarrow> accepts r n s t"
proof (induction r n s arbitrary: t rule: matches.induct)
  case (10 greedy r n s)
  from "10.prems" have "t = s \<or> (\<exists>u \<in> set (matches r n s).
      length u < length s \<and> t \<in> set (matches (Star greedy r) n u))"
    by (subst (asm) matches.simps(10)) (auto simp del: matches.simps simp: Let_def split: if_splits)
  thus ?case
  proof
    assume "t = s"
    thus ?thesis by (simp add: a_star0)
  next
    assume "\<exists>u \<in> set (matches r n s).
      length u < length s \<and> t \<in> set (matches (Star greedy r) n u)"
    then obtain u where u: "u \<in> set (matches r n s)" "length u < length s"
      "t \<in> set (matches (Star greedy r) n u)" by blast
    from u(1) have "accepts r n s u" by (rule "10.IH"(1))
    moreover from u have "accepts (Star greedy r) n u t" by (intro "10.IH"(2)) simp_all
    ultimately show ?thesis by (rule a_star1)
  qed
qed (auto simp del: matches.simps(10)
      simp: Let_def same_letter_upper in_class_iff line_ends_def
      intro: accepts.intros split: list.splits if_splits)

lemma matches_complete: "accepts r n s t \<Longrightarrow> t \<in> set (matches r n s)"
proof (induction rule: accepts.induct)
  case (a_opt1 r n s t g)
  show ?case
  proof (cases "length t < length s")
    case True
    with a_opt1.IH show ?thesis by (simp add: Let_def)
  next
    case False
    with a_opt1.hyps have "t = s" by (rule accepts_same)
    thus ?thesis by (simp add: Let_def)
  qed
next
  case (a_star0 g r n s)
  show ?case by (subst matches.simps(10)) (simp del: matches.simps add: Let_def)
next
  case (a_star1 r n s t g u)
  show ?case
  proof (cases "length t < length s")
    case True
    with a_star1.IH show ?thesis
      by (subst matches.simps(10)) (auto simp del: matches.simps simp: Let_def)
  next
    case False
    with a_star1.hyps(1) have "t = s" by (rule accepts_same)
    with a_star1.IH(2) show ?thesis by simp
  qed
next
  case (a_some r n s t)
  from a_some.hyps have "length t < length s"
    using accepts_same [of r n s t] by auto
  with a_some.IH show ?case by simp
qed (auto simp del: matches.simps(10)
      simp: Let_def same_letter_upper in_class_iff line_ends_def)

lemma matches_accepts: "t \<in> set (matches r n s) \<longleftrightarrow> accepts r n s t"
  using matches_sound matches_complete by blast

subsection \<open>Removal of all occurrences, and trimming\<close>





subsection \<open>The match key\<close>



subsection \<open>Determinism\<close>

text \<open>
  C2 (as stated: two passes on the same inputs give identical jobs, identifiers
  included). It fails: the identifier is made of \<open>Date.now()\<close> and \<open>Math.random()\<close>, and two
  passes that read different values give different jobs.
\<close>

theorem C2_identifiers_differ:
  "jobs (fst (handleLoadJobs (js_platform demo_ls) demo_props demo_clock demo_st)) \<noteq>
   jobs (fst (handleLoadJobs (js_platform demo_ls) demo_props (\<lambda>k. (2000 + k, ''0.25'')) demo_st))"
proof -
  have "map jobId (jobs (fst (handleLoadJobs (js_platform demo_ls) demo_props demo_clock demo_st))) =
        [''batch-1000-0.5'', ''batch-1001-0.5'']"
    by (simp add: demo_run)
  moreover have
    "map jobId (jobs (fst (handleLoadJobs (js_platform demo_ls) demo_props
        (\<lambda>k. (2000 + k, ''0.25'')) demo_st))) = [''batch-2000-0.25'', ''batch-2001-0.25'']"
    by code_simp
  ultimately show ?thesis by force
qed

text \<open>
  C2 (amended). For every platform, props and component, two passes give the same
  preview rows, in the same order and with the same keys, and the same jobs in the same
  order up to the field \<open>id\<close>, whatever the clock and the random numbers are.
\<close>

theorem C2_same_up_to_ids:
  "preview (fst (handleLoadJobs P pr clk st)) = preview (fst (handleLoadJobs P pr clk' st)) \<and>
   map strip_id (jobs (fst (handleLoadJobs P pr clk st))) =
   map strip_id (jobs (fst (handleLoadJobs P pr clk' st)))"
proof -
  have both: "b = b' \<and> map strip_id a = map strip_id a'"
    if "match_loop P pr st clk rs m ([], []) refs = (a, b)"
      and "match_loop P pr st clk' rs m ([], []) refs = (a', b')"
    for rs m refs a b a' b'
  proof -
    have "snd (match_loop P pr st clk rs m ([], []) refs) =
          snd (match_loop P pr st clk' rs m ([], []) refs)"
      by (rule match_loop_clock_rows)
    moreover have "map strip_id (fst (match_loop P pr st clk rs m ([], []) refs)) =
          map strip_id (fst (match_loop P pr st clk' rs m ([], []) refs))"
      by (rule match_loop_clock_jobs) simp
    ultimately show ?thesis using that by simp
  qed
  show ?thesis
    by (auto simp: handleLoadJobs_def load_try_def Let_def split: sum.splits prod.splits
        dest: both)
qed

subsection \<open>The lookup of foreign files\<close>

text \<open>
  C3. In a pass that reaches the loops, the lookup holds for every key the last of the
  foreign videos with that key, in the order of the listing; every preview row carries
  the key of its reference file and, as its match, that last foreign video (or none when
  no foreign video has the key); and the jobs are made from the rows with a match.
\<close>

theorem C3_last_write_wins:
  assumes "loads P st refFiles foreignFiles rs" and "toLowerCase P [] = []"
    and "foreignVideos = filter (isVideo P) foreignFiles"
    and "same = (\<lambda>k. filter (\<lambda>f. buildMatchKey P f rs = k) foreignVideos)"
  shows "(\<forall>k. foreignMap_loop P rs Map.empty foreignVideos k =
              (if same k = [] then None else Some (last (same k)))) \<and>
         (\<forall>row \<in> set (preview (fst (handleLoadJobs P pr clk st))).
              key row = buildMatchKey P (ref row) rs \<and>
              foreign row = (if same (key row) = [] then None else Some (last (same (key row))))) \<and>
         map paths (jobs (fst (handleLoadJobs P pr clk st))) =
           List.map_filter (row_paths st) (preview (fst (handleLoadJobs P pr clk st)))"
proof -
  have a: "\<And>k. foreignMap_loop P rs Map.empty foreignVideos k =
              (if same k = [] then None else Some (last (same k)))"
    unfolding assms(4) by (simp add: foreignMap_loop_last)
  have b: "\<And>row. row \<in> set (preview (fst (handleLoadJobs P pr clk st))) \<Longrightarrow>
              key row = buildMatchKey P (ref row) rs \<and>
              foreign row = (if same (key row) = [] then None else Some (last (same (key row))))"
    unfolding loads_preview [OF assms(1)] loads_foreign_nonempty [OF assms(1,2)]
    using a unfolding assms(3) by auto
  show ?thesis using a b loads_paths [OF assms(1)] by blast
qed

theorem C3_last_write_wins_witness:
  "loads (js_platform demo_ls) demo_st demo_refFiles demo_foreignFiles demo_rs \<and>
   toLowerCase (js_platform demo_ls) [] = [] \<and>
   filter (isVideo (js_platform demo_ls)) demo_foreignFiles = [''a.mkv'', ''A.mp4''] \<and>
   foreignMap_loop (js_platform demo_ls) demo_rs Map.empty [''a.mkv'', ''A.mp4''] ''a'' =
     Some ''A.mp4'' \<and>
   map foreign (preview (fst (handleLoadJobs (js_platform demo_ls) demo_props demo_clock demo_st))) =
     [Some ''A.mp4'', Some ''A.mp4'', None] \<and>
   map foreignVideo (jobs (fst (handleLoadJobs (js_platform demo_ls) demo_props demo_clock demo_st))) =
     [''/foreign/A.mp4'', ''/foreign/A.mp4'']"
proof -
  note C3_last_write_wins [OF demo_loads demo_lower_empty refl refl, of demo_props demo_clock]
  then have "map paths (jobs (fst (handleLoadJobs (js_platform demo_ls) demo_props demo_clock demo_st))) =
      List.map_filter (row_paths demo_st)
        (preview (fst (handleLoadJobs (js_platform demo_ls) demo_props demo_clock demo_st)))"
    by blast
  then have "map (\<lambda>j. fst (snd (paths j)))
        (jobs (fst (handleLoadJobs (js_platform demo_ls) demo_props demo_clock demo_st))) =
      [''/foreign/A.mp4'', ''/foreign/A.mp4'']"
    unfolding demo_run
    by (simp add: List.map_filter_simps row_paths_def paths_def demo_st_def)
  then have "map foreignVideo
        (jobs (fst (handleLoadJobs (js_platform demo_ls) demo_props demo_clock demo_st))) =
      [''/foreign/A.mp4'', ''/foreign/A.mp4'']"
    by (simp add: paths_def)
  moreover have "map foreign
        (preview (fst (handleLoadJobs (js_platform demo_ls) demo_props demo_clock demo_st))) =
      [Some ''A.mp4'', Some ''A.mp4'', None]"
    unfolding demo_run by simp
  ultimately show ?thesis
    using demo_loads demo_lower_empty demo_foreignVideos demo_lookup by simp
qed

subsection \<open>Rows and jobs\<close>

text \<open>
  C4. In a pass that reaches the loops there is one preview row for each video of the
  reference listing, in the order of the listing, and the jobs are the rows with a match,
  in the same order.
\<close>

theorem C4_rows_and_items:
  assumes "loads P st refFiles foreignFiles rs"
  shows "map ref (preview (fst (handleLoadJobs P pr clk st))) = filter (isVideo P) refFiles \<and>
         length (preview (fst (handleLoadJobs P pr clk st))) = length (filter (isVideo P) refFiles) \<and>
         map paths (jobs (fst (handleLoadJobs P pr clk st))) =
           List.map_filter (row_paths st) (preview (fst (handleLoadJobs P pr clk st)))"
  using loads_paths [OF assms]
  by (simp add: loads_preview [OF assms] comp_def)

theorem C4_rows_and_items_witness:
  "loads (js_platform demo_ls) demo_st demo_refFiles demo_foreignFiles demo_rs \<and>
   map ref (preview (fst (handleLoadJobs (js_platform demo_ls) demo_props demo_clock demo_st))) =
     [''a.avi'', ''A_.mov'', ''b.mkv''] \<and>
   length (preview (fst (handleLoadJobs (js_platform demo_ls) demo_props demo_clock demo_st))) = 3 \<and>
   map paths (jobs (fst (handleLoadJobs (js_platform demo_ls) demo_props demo_clock demo_st))) =
     [(''/ref/a.avi'', ''/foreign/A.mp4'', ''/out/a.avi''),
      (''/ref/A_.mov'', ''/foreign/A.mp4'', ''/out/A_.mov'')]"
  using C4_rows_and_items [OF demo_loads, of demo_props demo_clock] demo_loads
  unfolding demo_refVideos
  by (simp add: demo_run paths_def)

subsection \<open>Empty and blank patterns\<close>

text \<open>
  C5 (as stated: a pattern of white space only is filtered out before compilation and
  never applied). It fails: \<open>filter(Boolean)\<close> drops the empty string only. The pattern of
  one space is compiled, to the expression that matches a space, and applied: the key of
  \<open>a b.mkv\<close> is \<open>ab.mkv\<close> under it and \<open>a b.mkv\<close> under no pattern.
\<close>

theorem C5_blank_pattern_applied:
  "regexes (js_platform demo_ls) ['' ''] = Inr [Cat (Chr (CHR '' '')) Eps] \<and>
   regexes (js_platform demo_ls) [] = Inr [] \<and>
   matchKey_of (js_platform demo_ls) ['' ''] ''a b.mkv'' = Inr ''ab.mkv'' \<and>
   matchKey_of (js_platform demo_ls) [] ''a b.mkv'' = Inr ''a b.mkv''"
  by code_simp

text \<open>
  C5 (amended). Every empty pattern string is filtered out before compilation: the
  platform is never asked to compile the empty string, whatever it would answer, and a
  pass gives the same rows, jobs and events as the pass on the patterns without the empty
  strings.
\<close>

theorem C5_empty_patterns_dropped:
  "handleLoadJobs (P\<lparr>RegExp_gi := (RegExp_gi P)([] := x)\<rparr>) pr clk st = handleLoadJobs P pr clk st \<and>
   handleLoadJobs P pr clk (st\<lparr>patterns := filter (\<lambda>p. p \<noteq> []) (patterns st)\<rparr>) =
     ((fst (handleLoadJobs P pr clk st))\<lparr>patterns := filter (\<lambda>p. p \<noteq> []) (patterns st)\<rparr>,
      snd (handleLoadJobs P pr clk st))"
proof -
  let ?P = "P\<lparr>RegExp_gi := (RegExp_gi P)([] := x)\<rparr>"
  let ?st = "st\<lparr>patterns := filter (\<lambda>p. p \<noteq> []) (patterns st)\<rparr>"
  have key: "\<And>f rs. buildMatchKey ?P f rs = buildMatchKey P f rs"
    by (rule buildMatchKey_cong) simp_all
  have vid: "isVideo ?P = isVideo P"
    by (rule isVideo_cong) simp
  have rx: "regexes ?P (patterns st) = regexes P (patterns st)"
    unfolding regexes_def by (rule compile_all_cong) simp
  have fm: "\<And>rs m fs. foreignMap_loop ?P rs m fs = foreignMap_loop P rs m fs"
    by (rule foreignMap_loop_cong) (rule key)
  have ml: "\<And>rs m acc refs. match_loop ?P pr st clk rs m acc refs = match_loop P pr st clk rs m acc refs"
    by (rule match_loop_cong) (simp_all add: key)
  have "load_try ?P pr clk st = load_try P pr clk st"
    by (simp add: load_try_def vid rx fm ml Let_def split: sum.splits)
  then have first: "handleLoadJobs ?P pr clk st = handleLoadJobs P pr clk st"
    by (simp add: handleLoadJobs_def)
  have ml': "\<And>rs m acc refs. match_loop P pr ?st clk rs m acc refs = match_loop P pr st clk rs m acc refs"
    by (rule match_loop_cong) (simp_all add: new_job_def)
  have "load_try P pr clk ?st = load_try P pr clk st"
    by (simp add: load_try_def regexes_def ml' Let_def split: sum.splits)
  then have lt: "load_try P pr clk ?st = load_try P pr clk st" .
  have second: "handleLoadJobs P pr clk ?st =
     ((fst (handleLoadJobs P pr clk st))\<lparr>patterns := filter (\<lambda>p. p \<noteq> []) (patterns st)\<rparr>,
      snd (handleLoadJobs P pr clk st))"
  proof (cases "refFolder st = [] \<or> foreignFolder st = [] \<or> outputFolder st = []")
    case True
    then show ?thesis by (simp add: handleLoadJobs_def)
  next
    case False
    show ?thesis
    proof (cases "load_try P pr clk st")
      case (Inl e)
      then show ?thesis using False lt by (simp add: handleLoadJobs_def)
    next
      case (Inr res)
      then show ?thesis using False lt by (cases res) (simp add: handleLoadJobs_def)
    qed
  qed
  show ?thesis using first second by simp
qed

subsection \<open>A pattern that does not compile\<close>

text \<open>
  C6 (as stated: the error reported identifies the index of the failing pattern). It
  fails: the handler has one \<open>catch\<close> for the whole pass, which logs the exception of
  \<open>new RegExp\<close> and alerts a fixed text. The pass with the invalid pattern \<open>(\<close> at index 0
  and the pass with it at index 1 report the same.
\<close>

theorem C6_report_without_index:
  "snd (handleLoadJobs (js_platform demo_ls) demo_props demo_clock
          (demo_st\<lparr>patterns := [''('', ''a'']\<rparr>)) =
     [ConsoleError (SyntaxError ''Invalid regular expression: /(/gi: Unterminated group''),
      Alert ''Failed to load directory contents''] \<and>
   snd (handleLoadJobs (js_platform demo_ls) demo_props demo_clock
          (demo_st\<lparr>patterns := [''a'', ''('']\<rparr>)) =
     [ConsoleError (SyntaxError ''Invalid regular expression: /(/gi: Unterminated group''),
      Alert ''Failed to load directory contents'']"
  by code_simp

text \<open>
  C6 (amended). If a non-empty pattern does not compile, the pass leaves the component as
  it was: no preview row and no job is produced and the rows and jobs held before stay.
  When the folders are set and both listings arrive, the pass logs the exception that
  \<open>new RegExp\<close> threw for the first non-empty pattern that does not compile, and alerts
  \<open>Failed to load directory contents\<close>; nothing else is reported.
\<close>

theorem C6_compile_failure:
  assumes "p \<in> set (patterns st)" and "p \<noteq> []" and "isl (RegExp_gi P p)"
  shows "fst (handleLoadJobs P pr clk st) = st \<and>
         (ready P st refFiles foreignFiles \<longrightarrow>
            (\<exists>e as q bs.
               filter (\<lambda>p. p \<noteq> []) (patterns st) = as @ q # bs \<and>
               list_all (\<lambda>a. \<not> isl (RegExp_gi P a)) as \<and>
               RegExp_gi P q = Inl e \<and>
               snd (handleLoadJobs P pr clk st) =
                 [ConsoleError e, Alert ''Failed to load directory contents'']))"
proof -
  have "isl (regexes P (patterns st))"
    unfolding regexes_def using assms by (intro compile_all_fails [of p]) simp_all
  then obtain e where e: "regexes P (patterns st) = Inl e"
    by (cases "regexes P (patterns st)") simp_all
  then have lt: "isl (load_try P pr clk st)"
    by (simp add: load_try_def Let_def split: sum.splits)
  have unchanged: "fst (handleLoadJobs P pr clk st) = st"
    using lt by (cases "load_try P pr clk st") (simp_all add: handleLoadJobs_def)
  have report: "\<exists>e as q bs.
               filter (\<lambda>p. p \<noteq> []) (patterns st) = as @ q # bs \<and>
               list_all (\<lambda>a. \<not> isl (RegExp_gi P a)) as \<and>
               RegExp_gi P q = Inl e \<and>
               snd (handleLoadJobs P pr clk st) =
                 [ConsoleError e, Alert ''Failed to load directory contents'']"
    if r: "ready P st refFiles foreignFiles"
  proof -
    have "load_try P pr clk st = Inl e"
      using r e by (simp add: ready_def load_try_def Let_def)
    then have "snd (handleLoadJobs P pr clk st) =
                 [ConsoleError e, Alert ''Failed to load directory contents'']"
      using r by (simp add: ready_def handleLoadJobs_def)
    moreover obtain as q bs where
      "filter (\<lambda>p. p \<noteq> []) (patterns st) = as @ q # bs"
      "list_all (\<lambda>a. \<not> isl (RegExp_gi P a)) as" "RegExp_gi P q = Inl e"
      using compile_all_first [OF e [unfolded regexes_def]] by blast
    ultimately show ?thesis by blast
  qed
  show ?thesis using unchanged report by blast
qed

theorem C6_compile_failure_witness:
  "''('' \<in> set (patterns (demo_st\<lparr>patterns := [''a'', ''('']\<rparr>)) \<and> ''('' \<noteq> [] \<and>
   isl (RegExp_gi (js_platform demo_ls) ''('') \<and>
   ready (js_platform demo_ls) (demo_st\<lparr>patterns := [''a'', ''('']\<rparr>) demo_refFiles demo_foreignFiles \<and>
   fst (handleLoadJobs (js_platform demo_ls) demo_props demo_clock (demo_st\<lparr>patterns := [''a'', ''('']\<rparr>)) =
     demo_st\<lparr>patterns := [''a'', ''('']\<rparr> \<and>
   RegExp_gi (js_platform demo_ls) ''('' =
     Inl (SyntaxError ''Invalid regular expression: /(/gi: Unterminated group'') \<and>
   snd (handleLoadJobs (js_platform demo_ls) demo_props demo_clock (demo_st\<lparr>patterns := [''a'', ''('']\<rparr>)) =
     [ConsoleError (SyntaxError ''Invalid regular expression: /(/gi: Unterminated group''),
      Alert ''Failed to load directory contents'']"
proof -
  have h1: "''('' \<in> set (patterns (demo_st\<lparr>patterns := [''a'', ''('']\<rparr>))" by simp
  have h2: "''('' \<noteq> []" by simp
  have h3: "isl (RegExp_gi (js_platform demo_ls) ''('')" by code_simp
  have h4: "ready (js_platform demo_ls) (demo_st\<lparr>patterns := [''a'', ''('']\<rparr>)
              demo_refFiles demo_foreignFiles"
    by code_simp
  have c: "RegExp_gi (js_platform demo_ls) ''('' =
     Inl (SyntaxError ''Invalid regular expression: /(/gi: Unterminated group'')"
    by code_simp
  have s: "snd (handleLoadJobs (js_platform demo_ls) demo_props demo_clock
                  (demo_st\<lparr>patterns := [''a'', ''('']\<rparr>)) =
     [ConsoleError (SyntaxError ''Invalid regular expression: /(/gi: Unterminated group''),
      Alert ''Failed to load directory contents'']"
    by code_simp
  show ?thesis
    using C6_compile_failure [OF h1 h2 h3, of demo_props demo_clock demo_refFiles demo_foreignFiles]
      h1 h2 h3 h4 c s
    by simp
qed

subsection \<open>The example of the specification\<close>

text \<open>
  C7. With the five default patterns, a reference listing of \<open>Show.S01E01.1080p.mkv\<close> and
  a foreign listing of \<open>show_s01e01_eng.mp4\<close>, both names have the key \<open>shows01e01\<close>, the
  pass makes one preview row and one job, and the output path of the job is the output
  folder, \<open>/\<close> and the reference filename.
\<close>

theorem C7_default_rules_example:
  assumes "refFolder st \<noteq> []" and "foreignFolder st \<noteq> []" and "outputFolder st \<noteq> []"
    and "patterns st = DEFAULT_PATTERNS"
    and "ls (refFolder st) = Inr [''Show.S01E01.1080p.mkv'']"
    and "ls (foreignFolder st) = Inr [''show_s01e01_eng.mp4'']"
  shows "matchKey_of (js_platform ls) (patterns st) ''Show.S01E01.1080p.mkv'' = Inr ''shows01e01'' \<and>
         matchKey_of (js_platform ls) (patterns st) ''show_s01e01_eng.mp4'' = Inr ''shows01e01'' \<and>
         preview (fst (handleLoadJobs (js_platform ls) pr clk st)) =
           [\<lparr>ref = ''Show.S01E01.1080p.mkv'', foreign = Some ''show_s01e01_eng.mp4'',
             key = ''shows01e01''\<rparr>] \<and>
         jobs (fst (handleLoadJobs (js_platform ls) pr clk st)) =
           [new_job pr st (clk 0) ''Show.S01E01.1080p.mkv'' ''show_s01e01_eng.mp4''] \<and>
         map outputVideo (jobs (fst (handleLoadJobs (js_platform ls) pr clk st))) =
           [outputFolder st @ ''/'' @ ''Show.S01E01.1080p.mkv'']"
proof -
  let ?P = "js_platform ls"
  obtain rs where rs: "regexes ?P DEFAULT_PATTERNS = Inr rs"
    using show_key_ref [of ls] by (cases "regexes ?P DEFAULT_PATTERNS") (simp_all add: matchKey_of_def)
  have kr: "buildMatchKey ?P ''Show.S01E01.1080p.mkv'' rs = ''shows01e01''"
    using show_key_ref [of ls] rs by (simp add: matchKey_of_def)
  have kf: "buildMatchKey ?P ''show_s01e01_eng.mp4'' rs = ''shows01e01''"
    using show_key_foreign [of ls] rs by (simp add: matchKey_of_def)
  have ld: "listDirectory ?P = ls" by (simp add: js_platform_def)
  have l: "loads ?P st [''Show.S01E01.1080p.mkv''] [''show_s01e01_eng.mp4''] rs"
    using assms rs by (simp add: loads_def ld)
  have run: "handleLoadJobs ?P pr clk st =
      (st\<lparr>preview := [\<lparr>ref = ''Show.S01E01.1080p.mkv'', foreign = Some ''show_s01e01_eng.mp4'',
                         key = ''shows01e01''\<rparr>],
          jobs := [new_job pr st (clk 0) ''Show.S01E01.1080p.mkv'' ''show_s01e01_eng.mp4'']\<rparr>,
       if has_onJobsChange pr
       then [JobsChange [new_job pr st (clk 0) ''Show.S01E01.1080p.mkv'' ''show_s01e01_eng.mp4'']]
       else [])"
    unfolding handleLoadJobs_loads [OF l]
    using show_isVideo_ref [of ls] show_isVideo_foreign [of ls]
    by (simp add: Let_def kr kf or_null_def truthy_def)
  show ?thesis
    unfolding run assms(4)
    using show_key_ref [of ls] show_key_foreign [of ls]
    by (simp add: new_job_def)
qed

theorem C7_default_rules_example_witness:
  "refFolder demo_st \<noteq> [] \<and> foreignFolder demo_st \<noteq> [] \<and> outputFolder demo_st \<noteq> [] \<and>
   patterns demo_st = DEFAULT_PATTERNS \<and>
   show_ls (refFolder demo_st) = Inr [''Show.S01E01.1080p.mkv''] \<and>
   show_ls (foreignFolder demo_st) = Inr [''show_s01e01_eng.mp4''] \<and>
   map key (preview (fst (handleLoadJobs (js_platform show_ls) demo_props demo_clock demo_st))) =
     [''shows01e01''] \<and>
   length (jobs (fst (handleLoadJobs (js_platform show_ls) demo_props demo_clock demo_st))) = 1 \<and>
   map outputVideo (jobs (fst (handleLoadJobs (js_platform show_ls) demo_props demo_clock demo_st))) =
     [''/out/Show.S01E01.1080p.mkv'']"
proof -
  have h: "refFolder demo_st \<noteq> []" "foreignFolder demo_st \<noteq> []" "outputFolder demo_st \<noteq> []"
    "patterns demo_st = DEFAULT_PATTERNS"
    "show_ls (refFolder demo_st) = Inr [''Show.S01E01.1080p.mkv'']"
    "show_ls (foreignFolder demo_st) = Inr [''show_s01e01_eng.mp4'']"
    by (simp_all add: demo_st_def show_ls_def)
  have o: "outputFolder demo_st = ''/out''" by (simp add: demo_st_def)
  show ?thesis
    using C7_default_rules_example [OF h, of demo_props demo_clock] h
    by (simp add: o new_job_def)
qed

subsection \<open>Files that are no videos\<close>

text \<open>
  C8. A file takes part in a pass exactly when its lower-cased name ends with one of
  \<open>.mkv\<close>, \<open>.mp4\<close>, \<open>.avi\<close>, \<open>.mov\<close>, \<open>.m4v\<close>. In a pass that reaches the loops the preview
  rows are those of the videos of the reference listing, every match is a video of the
  foreign listing, and the pass is the one on the listings without the other files.
\<close>

theorem C8_only_videos:
  assumes "loads P st refFiles foreignFiles rs"
  shows "isVideo P f =
           (endsWith (toLowerCase P f) ''.mkv'' \<or> endsWith (toLowerCase P f) ''.mp4'' \<or>
            endsWith (toLowerCase P f) ''.avi'' \<or> endsWith (toLowerCase P f) ''.mov'' \<or>
            endsWith (toLowerCase P f) ''.m4v'') \<and>
         map ref (preview (fst (handleLoadJobs P pr clk st))) = filter (isVideo P) refFiles \<and>
         (\<forall>row \<in> set (preview (fst (handleLoadJobs P pr clk st))).
            \<forall>g. foreign row = Some g \<longrightarrow> g \<in> set foreignFiles \<and> isVideo P g) \<and>
         handleLoadJobs
           (P\<lparr>listDirectory := \<lambda>d. map_sum id (filter (isVideo P)) (listDirectory P d)\<rparr>) pr clk st =
           handleLoadJobs P pr clk st"
proof -
  let ?P = "P\<lparr>listDirectory := \<lambda>d. map_sum id (filter (isVideo P)) (listDirectory P d)\<rparr>"
  have a: "isVideo P f =
           (endsWith (toLowerCase P f) ''.mkv'' \<or> endsWith (toLowerCase P f) ''.mp4'' \<or>
            endsWith (toLowerCase P f) ''.avi'' \<or> endsWith (toLowerCase P f) ''.mov'' \<or>
            endsWith (toLowerCase P f) ''.m4v'')"
    by (simp add: isVideo_def videoExtensions_def)
  have b: "map ref (preview (fst (handleLoadJobs P pr clk st))) = filter (isVideo P) refFiles"
    by (simp add: loads_preview [OF assms] comp_def)
  have c: "g \<in> set foreignFiles \<and> isVideo P g"
    if rw: "row \<in> set (preview (fst (handleLoadJobs P pr clk st)))" and fr: "foreign row = Some g"
    for row g
  proof -
    have "\<exists>k. foreign row =
        or_null (foreignMap_loop P rs Map.empty (filter (isVideo P) foreignFiles) k)"
      using rw [unfolded loads_preview [OF assms]] by auto
    then obtain k where
      "or_null (foreignMap_loop P rs Map.empty (filter (isVideo P) foreignFiles) k) = Some g"
      using fr by auto
    then have "foreignMap_loop P rs Map.empty (filter (isVideo P) foreignFiles) k = Some g"
      by (simp add: or_null_def split: if_splits)
    then show ?thesis using foreignMap_loop_ran by fastforce
  qed
  have key: "\<And>f rs. buildMatchKey ?P f rs = buildMatchKey P f rs"
    by (rule buildMatchKey_cong) simp_all
  have vid: "isVideo ?P = isVideo P"
    by (rule isVideo_cong) simp
  have rx: "regexes ?P (patterns st) = regexes P (patterns st)"
    unfolding regexes_def by (rule compile_all_cong) simp
  have fm: "\<And>rs m fs. foreignMap_loop ?P rs m fs = foreignMap_loop P rs m fs"
    by (rule foreignMap_loop_cong) (rule key)
  have ml: "\<And>rs m acc refs. match_loop ?P pr st clk rs m acc refs = match_loop P pr st clk rs m acc refs"
    by (rule match_loop_cong) (simp_all add: key)
  have "load_try ?P pr clk st = load_try P pr clk st"
    by (simp add: load_try_def vid rx fm ml Let_def split: sum.splits)
  then have d: "handleLoadJobs ?P pr clk st = handleLoadJobs P pr clk st"
    by (simp add: handleLoadJobs_def)
  show ?thesis using a b c d by blast
qed

theorem C8_only_videos_witness:
  "loads (js_platform demo_ls) demo_st demo_refFiles demo_foreignFiles demo_rs \<and>
   ''notes.txt'' \<in> set demo_refFiles \<and> ''notes.txt'' \<in> set demo_foreignFiles \<and>
   \<not> isVideo (js_platform demo_ls) ''notes.txt'' \<and>
   map ref (preview (fst (handleLoadJobs (js_platform demo_ls) demo_props demo_clock demo_st))) =
     [''a.avi'', ''A_.mov'', ''b.mkv''] \<and>
   map foreign (preview (fst (handleLoadJobs (js_platform demo_ls) demo_props demo_clock demo_st))) =
     [Some ''A.mp4'', Some ''A.mp4'', None]"
proof -
  have n: "\<not> isVideo (js_platform demo_ls) ''notes.txt''" by code_simp
  have m: "''notes.txt'' \<in> set demo_refFiles" "''notes.txt'' \<in> set demo_foreignFiles"
    by (simp_all add: demo_refFiles_def demo_foreignFiles_def)
  have "map foreign
        (preview (fst (handleLoadJobs (js_platform demo_ls) demo_props demo_clock demo_st))) =
      [Some ''A.mp4'', Some ''A.mp4'', None]"
    unfolding demo_run by simp
  then show ?thesis
    using C8_only_videos [OF demo_loads, of "''notes.txt''" demo_props demo_clock] demo_loads n m
    unfolding demo_refVideos by simp
qed

subsection \<open>Adding to the queue\<close>




subsection \<open>Reference files with one key\<close>

text \<open>
  C10. In a pass that reaches the loops every video of the reference listing has its own
  preview row, with the match that the lookup holds for its key, and its own job when
  there is one: reference files with the same key are all paired with the same foreign
  file, and there are as many jobs as reference videos whose key is in the lookup.
\<close>

theorem C10_many_to_one:
  assumes "loads P st refFiles foreignFiles rs" and "toLowerCase P [] = []"
    and "m = foreignMap_loop P rs Map.empty (filter (isVideo P) foreignFiles)"
    and "refVideos = filter (isVideo P) refFiles"
  shows "preview (fst (handleLoadJobs P pr clk st)) =
           map (\<lambda>r. \<lparr>ref = r, foreign = m (buildMatchKey P r rs), key = buildMatchKey P r rs\<rparr>)
             refVideos \<and>
         map paths (jobs (fst (handleLoadJobs P pr clk st))) =
           List.map_filter
             (\<lambda>r. map_option
                (\<lambda>f. (refFolder st @ ''/'' @ r, foreignFolder st @ ''/'' @ f, outputFolder st @ ''/'' @ r))
                (m (buildMatchKey P r rs))) refVideos \<and>
         length (jobs (fst (handleLoadJobs P pr clk st))) =
           length (filter (\<lambda>r. buildMatchKey P r rs \<in> dom m) refVideos)"
proof -
  have rows: "preview (fst (handleLoadJobs P pr clk st)) =
           map (\<lambda>r. \<lparr>ref = r, foreign = m (buildMatchKey P r rs), key = buildMatchKey P r rs\<rparr>)
             refVideos"
    unfolding assms(3,4)
    by (simp add: loads_preview [OF assms(1)] loads_foreign_nonempty [OF assms(1,2)])
  have items: "map paths (jobs (fst (handleLoadJobs P pr clk st))) =
           List.map_filter
             (\<lambda>r. map_option
                (\<lambda>f. (refFolder st @ ''/'' @ r, foreignFolder st @ ''/'' @ f, outputFolder st @ ''/'' @ r))
                (m (buildMatchKey P r rs))) refVideos"
    unfolding loads_paths [OF assms(1)] rows
    by (simp add: map_filter_map row_paths_def)
  have "length (jobs (fst (handleLoadJobs P pr clk st))) =
        length (map paths (jobs (fst (handleLoadJobs P pr clk st))))"
    by simp
  also have "\<dots> = length (List.map_filter
             (\<lambda>r. map_option
                (\<lambda>f. (refFolder st @ ''/'' @ r, foreignFolder st @ ''/'' @ f, outputFolder st @ ''/'' @ r))
                (m (buildMatchKey P r rs))) refVideos)"
    by (simp only: items)
  also have "\<dots> = length (filter (\<lambda>r. buildMatchKey P r rs \<in> dom m) refVideos)"
    by (simp add: List.map_filter_def dom_def)
  finally show ?thesis using rows items by simp
qed

theorem C10_many_to_one_witness:
  "loads (js_platform demo_ls) demo_st demo_refFiles demo_foreignFiles demo_rs \<and>
   toLowerCase (js_platform demo_ls) [] = [] \<and>
   filter (isVideo (js_platform demo_ls)) demo_refFiles = [''a.avi'', ''A_.mov'', ''b.mkv''] \<and>
   preview (fst (handleLoadJobs (js_platform demo_ls) demo_props demo_clock demo_st)) =
     [\<lparr>ref = ''a.avi'', foreign = Some ''A.mp4'', key = ''a''\<rparr>,
      \<lparr>ref = ''A_.mov'', foreign = Some ''A.mp4'', key = ''a''\<rparr>,
      \<lparr>ref = ''b.mkv'', foreign = None, key = ''b''\<rparr>] \<and>
   map paths (jobs (fst (handleLoadJobs (js_platform demo_ls) demo_props demo_clock demo_st))) =
     [(''/ref/a.avi'', ''/foreign/A.mp4'', ''/out/a.avi''),
      (''/ref/A_.mov'', ''/foreign/A.mp4'', ''/out/A_.mov'')]"
proof -
  have "map paths (jobs (fst (handleLoadJobs (js_platform demo_ls) demo_props demo_clock demo_st))) =
     [(''/ref/a.avi'', ''/foreign/A.mp4'', ''/out/a.avi''),
      (''/ref/A_.mov'', ''/foreign/A.mp4'', ''/out/A_.mov'')]"
    unfolding demo_run by (simp add: paths_def)
  moreover have "preview (fst (handleLoadJobs (js_platform demo_ls) demo_props demo_clock demo_st)) =
     [\<lparr>ref = ''a.avi'', foreign = Some ''A.mp4'', key = ''a''\<rparr>,
      \<lparr>ref = ''A_.mov'', foreign = Some ''A.mp4'', key = ''a''\<rparr>,
      \<lparr>ref = ''b.mkv'', foreign = None, key = ''b''\<rparr>]"
    unfolding demo_run by simp
  ultimately have concrete:
    "loads (js_platform demo_ls) demo_st demo_refFiles demo_foreignFiles demo_rs \<and>
     toLowerCase (js_platform demo_ls) [] = [] \<and>
     filter (isVideo (js_platform demo_ls)) demo_refFiles = [''a.avi'', ''A_.mov'', ''b.mkv''] \<and>
     preview (fst (handleLoadJobs (js_platform demo_ls) demo_props demo_clock demo_st)) =
       [\<lparr>ref = ''a.avi'', foreign = Some ''A.mp4'', key = ''a''\<rparr>,
        \<lparr>ref = ''A_.mov'', foreign = Some ''A.mp4'', key = ''a''\<rparr>,
        \<lparr>ref = ''b.mkv'', foreign = None, key = ''b''\<rparr>] \<and>
     map paths (jobs (fst (handleLoadJobs (js_platform demo_ls) demo_props demo_clock demo_st))) =
       [(''/ref/a.avi'', ''/foreign/A.mp4'', ''/out/a.avi''),
        (''/ref/A_.mov'', ''/foreign/A.mp4'', ''/out/A_.mov'')]"
    using demo_loads demo_lower_empty demo_refVideos by simp
  show ?thesis
    by (insert C10_many_to_one [OF demo_loads demo_lower_empty refl refl, of demo_props demo_clock])
       (rule concrete)
qed

end
